theory Spec2Isabelle
  imports Main "HOL-Library.Word"
begin

unbundle bit_operations_syntax

section \<open>Machine types and faults\<close>

text \<open>
  The target is a 32-bit ARM kernel: \<^verbatim>\<open>int\<close>, \<^verbatim>\<open>unsigned int\<close>, \<^verbatim>\<open>long\<close>,
  \<^verbatim>\<open>unsigned long\<close> and \<^verbatim>\<open>uint32_t\<close> are 32 bits wide, \<^verbatim>\<open>unsigned char\<close> is 8 bits.
  Unsigned comparison is the order of words; signed comparison is \<open>word_sless\<close> and
  \<open>word_sle\<close>.
\<close>

type_synonym u32 = "32 word"
type_synonym u8 = "8 word"

text \<open>
  What stops a kernel function instead of letting it return: an access outside the
  allocated elements of an array, a division by zero, a \<^verbatim>\<open>BUG_ON\<close> that fires.
\<close>

datatype fault = OutOfBounds | DivByZero | BUG

datatype errno = EINVAL | ERANGE

section \<open>auto\_hotplug.c: state\<close>

text \<open>Control flags, bits of the global \<^verbatim>\<open>unsigned char flags\<close>.\<close>

definition HOTPLUG_DISABLED :: u8 where "HOTPLUG_DISABLED = push_bit 0 1"
definition HOTPLUG_PAUSED :: u8 where "HOTPLUG_PAUSED = push_bit 1 1"
definition BOOSTPULSE_ACTIVE :: u8 where "BOOSTPULSE_ACTIVE = push_bit 2 1"
definition EARLYSUSPEND_ACTIVE :: u8 where "EARLYSUSPEND_ACTIVE = push_bit 3 1"

definition DEFAULT_SAMPLING_PERIODS :: u32 where "DEFAULT_SAMPLING_PERIODS = 10"
definition DEFAULT_MIN_SAMPLING_RATE :: u32 where "DEFAULT_MIN_SAMPLING_RATE = 20"
definition DEFAULT_ENABLE_LOAD_THRESHOLD :: u32 where "DEFAULT_ENABLE_LOAD_THRESHOLD = 200"
definition DEFAULT_DISABLE_LOAD_THRESHOLD :: u32 where "DEFAULT_DISABLE_LOAD_THRESHOLD = 80"

text \<open>The work items of the driver, by the names of the source's globals.\<close>

datatype work =
    hotplug_decision_work
  | hotplug_unpause_work
  | hotplug_online_all_work
  | hotplug_online_single_work
  | hotplug_offline_work
  | hotplug_offline_all_work
  | hotplug_boost_online_work

text \<open>
  The globals of the driver. \<open>history\<close> is the block that \<^verbatim>\<open>history\<close> points to: its
  length is the number of elements that were allocated for it. \<open>pending\<close> is the
  kernel's work queue as far as this driver is concerned: a work item that is queued and
  has not started yet is mapped to its delay in jiffies (0 for \<^verbatim>\<open>schedule_work\<close>).
  \<open>cpu_online\<close> is the online mask over the possible CPUs, so \<^verbatim>\<open>num_possible_cpus()\<close>
  is its length. The \<^verbatim>\<open>debug\<close> switch only adds log output and is left out.
\<close>

record hotplug =
  flags :: u8
  enable_all_load_threshold :: u32
  enable_load_threshold :: u32
  disable_load_threshold :: u32
  min_sampling_rate :: u32
  sampling_periods :: u32
  live_sampling_periods :: u32
  index_max_value :: u32
  min_online_cpus :: u32
  max_online_cpus :: u32
  history :: "u32 list"
  index :: u32
  pending :: "work \<Rightarrow> u32 option"
  cpu_online :: "bool list"

text \<open>
  What the platform fixes: the tick rate \<^verbatim>\<open>HZ\<close>, the conversion \<^verbatim>\<open>msecs_to_jiffies\<close>,
  whether a request to bring a core up or down succeeds (the source ignores the
  return values of \<^verbatim>\<open>cpu_up\<close> and \<^verbatim>\<open>cpu_down\<close>), and, for the thermal driver, the
  header constants \<^verbatim>\<open>CPUFREQ_TABLE_END\<close> and \<^verbatim>\<open>MSM_CPUFREQ_NO_LIMIT\<close> and the number
  of possible CPUs.
\<close>

record platform =
  HZ :: u32
  msecs_to_jiffies :: "u32 \<Rightarrow> u32"
  cpu_up_ok :: "nat \<Rightarrow> bool"
  cpu_down_ok :: "nat \<Rightarrow> bool"
  CPUFREQ_TABLE_END :: u32
  MSM_CPUFREQ_NO_LIMIT :: u32
  nr_possible_cpus :: nat

definition CPUS_AVAILABLE :: "hotplug \<Rightarrow> u32" where
  "CPUS_AVAILABLE s = of_nat (length (cpu_online s))"

definition num_online_cpus :: "hotplug \<Rightarrow> u32" where
  "num_online_cpus s = of_nat (length (filter id (cpu_online s)))"

subsection \<open>The work queue\<close>

text \<open>
  \<^verbatim>\<open>schedule_work\<close> and \<^verbatim>\<open>schedule_delayed_work\<close> queue an item unless it is already
  pending; \<^verbatim>\<open>cancel_delayed_work\<close> and \<^verbatim>\<open>cancel_delayed_work_sync\<close> take a pending
  item off the queue. The \<^verbatim>\<open>_sync\<close> form also waits until a running instance of the
  item has finished: where work functions run one at a time there is nothing to wait
  for, and in the interleaved runs below the caller cannot take the step while the item's
  function is in progress.
\<close>

definition delayed_work_pending :: "work \<Rightarrow> hotplug \<Rightarrow> bool" where
  "delayed_work_pending w s = (pending s w \<noteq> None)"

definition schedule_delayed_work :: "work \<Rightarrow> u32 \<Rightarrow> hotplug \<Rightarrow> hotplug" where
  "schedule_delayed_work w d s =
     (if pending s w = None then s\<lparr>pending := (pending s)(w \<mapsto> d)\<rparr> else s)"

definition schedule_work :: "work \<Rightarrow> hotplug \<Rightarrow> hotplug" where
  "schedule_work w s = schedule_delayed_work w 0 s"

definition cancel_delayed_work :: "work \<Rightarrow> hotplug \<Rightarrow> hotplug" where
  "cancel_delayed_work w s = s\<lparr>pending := (pending s)(w := None)\<rparr>"

definition cancel_delayed_work_sync :: "work \<Rightarrow> hotplug \<Rightarrow> hotplug" where
  "cancel_delayed_work_sync w s = s\<lparr>pending := (pending s)(w := None)\<rparr>"

section \<open>auto\_hotplug.c: the decision step\<close>

text \<open>
  The averaging loop of \<^verbatim>\<open>hotplug_decision_work_fn\<close>:
  \<^verbatim>\<open>for (i = 0, j = index; i < live_sampling_periods; i++, j--) {
       avg_running += history[j];
       if (unlikely(j == 0)) j = index_max_value; }\<close>
  The first argument counts the iterations that remain; the body reads \<open>history[j]\<close>,
  resets \<open>j\<close> to \<open>index_max_value\<close> when it is 0, and the loop header then
  decrements \<open>j\<close>.
\<close>

fun average_loop :: "u32 list \<Rightarrow> u32 \<Rightarrow> nat \<Rightarrow> u32 \<Rightarrow> u32 \<Rightarrow> fault + u32" where
  "average_loop h imax 0 j avg_running = Inr avg_running"
| "average_loop h imax (Suc n) j avg_running =
     (if unat j < length h
      then average_loop h imax n ((if j = 0 then imax else j) - 1) (avg_running + h ! unat j)
      else Inl OutOfBounds)"

text \<open>
  Lines 313 to 323: when the tunable differs from the live period count the source calls
  \<^verbatim>\<open>krealloc(history, live_sampling_periods*sizeof(int), GFP_KERNEL)\<close>, with the
  live (old) count, and keeps the result in the local \<^verbatim>\<open>new_sample_size\<close> only:
  \<^verbatim>\<open>history\<close> is never assigned. When the result is not NULL the live count and
  the index bound are set from the tunable. The block behind \<^verbatim>\<open>history\<close> is taken
  to stay as it was, which is what \<^verbatim>\<open>krealloc\<close> does for a size that the block
  already has.
\<close>

definition resize_history :: "bool \<Rightarrow> hotplug \<Rightarrow> hotplug" where
  "resize_history krealloc_ok s =
     (if live_sampling_periods s \<noteq> sampling_periods s
      then (if \<not> krealloc_ok then s
            else s\<lparr>live_sampling_periods := sampling_periods s,
                   index_max_value := sampling_periods s - 1\<rparr>)
      else s)"

text \<open>
  Lines 313 to 365, the sampling half of \<^verbatim>\<open>hotplug_decision_work_fn\<close>: resize, store
  \<^verbatim>\<open>nr_running() * 100\<close> at the cursor, sum over the window, advance the cursor, divide.
  The result is \<^verbatim>\<open>avg_running\<close> and the state.
\<close>

definition sample_load :: "u32 \<Rightarrow> bool \<Rightarrow> hotplug \<Rightarrow> fault + (u32 \<times> hotplug)" where
  "sample_load nr_running krealloc_ok s0 =
     (let s1 = resize_history krealloc_ok s0;
          running = nr_running * 100
      in if \<not> unat (index s1) < length (history s1) then Inl OutOfBounds
         else
           let s2 = s1\<lparr>history := (history s1)[unat (index s1) := running]\<rparr> in
           case average_loop (history s2) (index_max_value s2)
                  (unat (live_sampling_periods s2)) (index s2) 0 of
             Inl e \<Rightarrow> Inl e
           | Inr summed \<Rightarrow>
               let s3 = s2\<lparr>index := (if index s2 = index_max_value s2 then 0
                                       else index s2 + 1)\<rparr>
               in if live_sampling_periods s3 = 0 then Inl DivByZero
                  else Inr (summed div live_sampling_periods s3, s3))"

text \<open>The branch that the \<^verbatim>\<open>if\<close> chain of lines 370 to 412 takes.\<close>

datatype decision =
  Disabled_skip | All_on | Paused_passthrough | Single_on | Single_off | No_action

definition decide :: "hotplug \<Rightarrow> u32 \<Rightarrow> decision" where
  "decide s avg_running =
     (let online_cpus = num_online_cpus s;
          available_cpus = CPUS_AVAILABLE s;
          disable_load = disable_load_threshold s * online_cpus;
          enable_load = enable_load_threshold s * online_cpus
      in if flags s AND HOTPLUG_DISABLED \<noteq> 0 then Disabled_skip
         else if enable_all_load_threshold s \<le> avg_running \<and> online_cpus < available_cpus
                 \<and> online_cpus < max_online_cpus s then All_on
         else if flags s AND HOTPLUG_PAUSED \<noteq> 0 then Paused_passthrough
         else if enable_load \<le> avg_running \<and> online_cpus < available_cpus
                 \<and> online_cpus < max_online_cpus s then Single_on
         else if avg_running \<le> disable_load \<and> min_online_cpus s < online_cpus
              then Single_off
         else No_action)"

text \<open>\<^verbatim>\<open>if (delayed_work_pending(&w)) cancel_delayed_work(&w);\<close>\<close>

definition cancel_if_pending :: "work \<Rightarrow> hotplug \<Rightarrow> hotplug" where
  "cancel_if_pending w s = (if delayed_work_pending w s then cancel_delayed_work w s else s)"

text \<open>Lines 417 to 421: re-arm the sampler at \<^verbatim>\<open>min_sampling_rate_in_jiffies * online_cpus\<^sup>2\<close>.\<close>

definition rearm :: "platform \<Rightarrow> hotplug \<Rightarrow> hotplug" where
  "rearm p s =
     (let online_cpus = num_online_cpus s;
          sampling_rate = msecs_to_jiffies p (min_sampling_rate s) * (online_cpus * online_cpus)
      in schedule_delayed_work hotplug_decision_work sampling_rate s)"

definition hotplug_decision_work_fn ::
  "platform \<Rightarrow> u32 \<Rightarrow> bool \<Rightarrow> hotplug \<Rightarrow> fault + hotplug" where
  "hotplug_decision_work_fn p nr_running krealloc_ok s0 =
     (case sample_load nr_running krealloc_ok s0 of
        Inl e \<Rightarrow> Inl e
      | Inr (avg_running, s) \<Rightarrow>
          (case decide s avg_running of
             All_on \<Rightarrow>
               Inr (schedule_work hotplug_online_all_work
                      (cancel_if_pending hotplug_offline_work
                         (s\<lparr>flags := flags s OR HOTPLUG_PAUSED\<rparr>)))
           | Paused_passthrough \<Rightarrow>
               Inr (schedule_delayed_work hotplug_decision_work
                      (msecs_to_jiffies p (min_sampling_rate s)) s)
           | Single_on \<Rightarrow>
               Inr (schedule_work hotplug_online_single_work
                      (cancel_if_pending hotplug_offline_work s))
           | Single_off \<Rightarrow>
               (let s1 = (if \<not> delayed_work_pending hotplug_offline_work s
                          then schedule_delayed_work hotplug_offline_work (HZ p) s else s);
                    s2 = (if flags s1 AND BOOSTPULSE_ACTIVE \<noteq> 0
                          then s1\<lparr>flags := flags s1 AND NOT BOOSTPULSE_ACTIVE\<rparr> else s1)
                in Inr (rearm p s2))
           | No_action \<Rightarrow> Inr (rearm p s)
           | Disabled_skip \<Rightarrow> Inr (rearm p s)))"

section \<open>auto\_hotplug.c: the work functions and the entry points\<close>

definition cpu_up :: "platform \<Rightarrow> nat \<Rightarrow> hotplug \<Rightarrow> hotplug" where
  "cpu_up p cpu s =
     (if cpu_up_ok p cpu then s\<lparr>cpu_online := (cpu_online s)[cpu := True]\<rparr> else s)"

definition cpu_down :: "platform \<Rightarrow> nat \<Rightarrow> hotplug \<Rightarrow> hotplug" where
  "cpu_down p cpu s =
     (if cpu_down_ok p cpu then s\<lparr>cpu_online := (cpu_online s)[cpu := False]\<rparr> else s)"

definition possible_cpus :: "hotplug \<Rightarrow> nat list" where
  "possible_cpus s = [0 ..< length (cpu_online s)]"

definition hotplug_online_all_work_fn :: "platform \<Rightarrow> hotplug \<Rightarrow> hotplug" where
  "hotplug_online_all_work_fn p s =
     (let s1 = fold (\<lambda>cpu t. if \<not> cpu_online t ! cpu then cpu_up p cpu t else t)
                 (possible_cpus s) s;
          s2 = schedule_delayed_work hotplug_unpause_work (HZ p * 2) s1
      in schedule_delayed_work hotplug_decision_work (min_sampling_rate s2) s2)"

definition hotplug_offline_all_work_fn :: "platform \<Rightarrow> hotplug \<Rightarrow> hotplug" where
  "hotplug_offline_all_work_fn p s =
     fold (\<lambda>cpu t. if cpu_online t ! cpu \<and> cpu \<noteq> 0 then cpu_down p cpu t else t)
       (possible_cpus s) s"

definition hotplug_online_single_work_fn :: "platform \<Rightarrow> hotplug \<Rightarrow> hotplug" where
  "hotplug_online_single_work_fn p s =
     (let s1 = (case find (\<lambda>cpu. cpu \<noteq> 0 \<and> \<not> cpu_online s ! cpu) (possible_cpus s) of
                  None \<Rightarrow> s
                | Some cpu \<Rightarrow> cpu_up p cpu s)
      in schedule_delayed_work hotplug_decision_work (min_sampling_rate s1) s1)"

definition hotplug_offline_work_fn :: "platform \<Rightarrow> hotplug \<Rightarrow> hotplug" where
  "hotplug_offline_work_fn p s =
     (let s1 = (case find (\<lambda>cpu. cpu \<noteq> 0 \<and> cpu_online s ! cpu) (possible_cpus s) of
                  None \<Rightarrow> s
                | Some cpu \<Rightarrow> cpu_down p cpu s)
      in schedule_delayed_work hotplug_decision_work (min_sampling_rate s1) s1)"

definition hotplug_unpause_work_fn :: "hotplug \<Rightarrow> hotplug" where
  "hotplug_unpause_work_fn s = s\<lparr>flags := flags s AND NOT HOTPLUG_PAUSED\<rparr>"

definition hotplug_disable :: "bool \<Rightarrow> hotplug \<Rightarrow> hotplug" where
  "hotplug_disable flag s =
     (if flags s AND HOTPLUG_DISABLED \<noteq> 0 \<and> \<not> flag then
        schedule_delayed_work hotplug_decision_work 0
          (s\<lparr>flags := (flags s AND NOT HOTPLUG_DISABLED) AND NOT HOTPLUG_PAUSED\<rparr>)
      else if flag \<and> \<not> (flags s AND HOTPLUG_DISABLED \<noteq> 0) then
        cancel_delayed_work_sync hotplug_unpause_work
          (cancel_delayed_work_sync hotplug_decision_work
             (cancel_delayed_work_sync hotplug_offline_work
                (s\<lparr>flags := flags s OR HOTPLUG_DISABLED\<rparr>)))
      else s)"

definition hotplug_boostpulse :: "platform \<Rightarrow> hotplug \<Rightarrow> hotplug" where
  "hotplug_boostpulse p s =
     (let online_cpus = num_online_cpus s in
      if flags s AND (EARLYSUSPEND_ACTIVE OR HOTPLUG_DISABLED) \<noteq> 0 then s
      else if \<not> (flags s AND BOOSTPULSE_ACTIVE \<noteq> 0) \<and> online_cpus < max_online_cpus s then
        (let s1 = s\<lparr>flags := flags s OR BOOSTPULSE_ACTIVE\<rparr> in
         if online_cpus < 2 then
           (let s2 = cancel_delayed_work_sync hotplug_offline_work s1;
                s3 = s2\<lparr>flags := flags s2 OR HOTPLUG_PAUSED\<rparr>;
                s4 = schedule_work hotplug_online_single_work s3
            in schedule_delayed_work hotplug_unpause_work (HZ p) s4)
         else if delayed_work_pending hotplug_offline_work s1 then
           (let s2 = cancel_delayed_work hotplug_offline_work s1;
                s3 = s2\<lparr>flags := flags s2 OR HOTPLUG_PAUSED\<rparr>;
                s4 = schedule_delayed_work hotplug_unpause_work (HZ p * 2) s3
            in schedule_delayed_work hotplug_decision_work (min_sampling_rate s4) s4)
         else s1)
      else s)"

definition auto_hotplug_early_suspend :: "hotplug \<Rightarrow> hotplug" where
  "auto_hotplug_early_suspend s =
     (let s1 = s\<lparr>flags := flags s OR EARLYSUSPEND_ACTIVE\<rparr>;
          s2 = cancel_delayed_work_sync hotplug_offline_work s1;
          s3 = cancel_delayed_work_sync hotplug_decision_work s2
      in if 1 < num_online_cpus s3 then schedule_work hotplug_offline_all_work s3 else s3)"

text \<open>\<^verbatim>\<open>for (i=0; i<5; i++) history[i] = 500;\<close> writes five elements whatever the block holds.\<close>

definition auto_hotplug_late_resume :: "platform \<Rightarrow> hotplug \<Rightarrow> fault + hotplug" where
  "auto_hotplug_late_resume p s =
     (let s1 = s\<lparr>flags := flags s AND NOT EARLYSUSPEND_ACTIVE\<rparr> in
      if length (history s1) < 5 then Inl OutOfBounds
      else Inr (schedule_delayed_work hotplug_decision_work (HZ p div 2)
                  (s1\<lparr>history := replicate 5 500 @ drop 5 (history s1)\<rparr>)))"

text \<open>
  \<^verbatim>\<open>auto_hotplug_init\<close>, from the initial values of the globals. \<open>mem\<close> is what the fresh
  \<^verbatim>\<open>kmalloc\<close> block happens to hold and \<open>online\<close> the online mask at that time.
\<close>

definition auto_hotplug_init :: "platform \<Rightarrow> bool list \<Rightarrow> (nat \<Rightarrow> u32) \<Rightarrow> hotplug" where
  "auto_hotplug_init p online mem =
     (let s = \<lparr>flags = 0 OR HOTPLUG_PAUSED,
               enable_all_load_threshold = 100 * of_nat (length online),
               enable_load_threshold = DEFAULT_ENABLE_LOAD_THRESHOLD,
               disable_load_threshold = DEFAULT_DISABLE_LOAD_THRESHOLD,
               min_sampling_rate = DEFAULT_MIN_SAMPLING_RATE,
               sampling_periods = DEFAULT_SAMPLING_PERIODS,
               live_sampling_periods = DEFAULT_SAMPLING_PERIODS,
               index_max_value = DEFAULT_SAMPLING_PERIODS - 1,
               min_online_cpus = 1,
               max_online_cpus = of_nat (length online),
               history = map mem [0 ..< unat DEFAULT_SAMPLING_PERIODS],
               index = 0,
               pending = (\<lambda>w. None),
               cpu_online = online\<rparr>;
          s1 = schedule_delayed_work hotplug_decision_work (HZ p * 5) s
      in schedule_delayed_work hotplug_unpause_work (HZ p * 10) s1)"

section \<open>auto\_hotplug.c: the tunables\<close>

text \<open>
  The text handed to a setter: a null pointer, text that is no number, or the text of
  the number \<open>n\<close> (of any size).
\<close>

datatype param_text = Null | Garbage | Number int

text \<open>
  The kernel's \<^verbatim>\<open>strict_strtol(val, 0, &num)\<close>: \<^verbatim>\<open>-EINVAL\<close> for text that is no
  number, \<^verbatim>\<open>-ERANGE\<close> for a number that does not fit a \<^verbatim>\<open>long\<close>, and in both cases
  \<^verbatim>\<open>num\<close> keeps what it held; the setters never initialise \<^verbatim>\<open>num\<close>, so what it
  held (\<open>num0\<close>) is an argument. The kernel's \<^verbatim>\<open>param_set_int\<close> parses the same text
  and either returns an error and stores nothing or yields the value to store.
\<close>

definition fits_long :: "int \<Rightarrow> bool" where
  "fits_long n = (- (2 ^ 31) \<le> n \<and> n < 2 ^ 31)"

fun strict_strtol :: "param_text \<Rightarrow> int \<Rightarrow> errno option \<times> int" where
  "strict_strtol Null num0 = (Some EINVAL, num0)"
| "strict_strtol Garbage num0 = (Some EINVAL, num0)"
| "strict_strtol (Number n) num0 = (if fits_long n then (None, n) else (Some ERANGE, num0))"

fun param_set_int :: "param_text \<Rightarrow> errno + u32" where
  "param_set_int Null = Inl EINVAL"
| "param_set_int Garbage = Inl EINVAL"
| "param_set_int (Number n) = (if fits_long n then Inr (word_of_int n) else Inl ERANGE)"

text \<open>
  The body that \<^verbatim>\<open>set_enable_all_load_threshold\<close>, \<^verbatim>\<open>set_enable_load_threshold\<close>,
  \<^verbatim>\<open>set_disable_load_threshold\<close>, \<^verbatim>\<open>set_min_sampling_rate\<close>, \<^verbatim>\<open>set_sampling_periods\<close>
  and the thermal setters share, up to the two bounds:
  \<^verbatim>\<open>if (!val) return -EINVAL;
  ret = strict_strtol(val, 0, &num);
  if (ret == -EINVAL || num > hi || num < lo) return -EINVAL;
  ret = param_set_int(val, kp);\<close>
  The result is the error returned or the value that \<^verbatim>\<open>param_set_int\<close> stored.
\<close>

definition range_checked :: "int \<Rightarrow> int \<Rightarrow> int \<Rightarrow> param_text \<Rightarrow> errno + u32" where
  "range_checked lo hi num0 val =
     (if val = Null then Inl EINVAL
      else (case strict_strtol val num0 of
              (ret, num) \<Rightarrow>
                if ret = Some EINVAL \<or> hi < num \<or> num < lo then Inl EINVAL
                else param_set_int val))"

text \<open>A setter returns what the C function returns (\<open>None\<close> for 0) and the state.\<close>

definition set_enable_all_load_threshold ::
  "int \<Rightarrow> param_text \<Rightarrow> hotplug \<Rightarrow> errno option \<times> hotplug" where
  "set_enable_all_load_threshold num0 val s =
     (case range_checked 270 550 num0 val of
        Inl e \<Rightarrow> (Some e, s)
      | Inr v \<Rightarrow> (None, s\<lparr>enable_all_load_threshold := v\<rparr>))"

definition set_enable_load_threshold ::
  "int \<Rightarrow> param_text \<Rightarrow> hotplug \<Rightarrow> errno option \<times> hotplug" where
  "set_enable_load_threshold num0 val s =
     (case range_checked 130 250 num0 val of
        Inl e \<Rightarrow> (Some e, s)
      | Inr v \<Rightarrow> (None, s\<lparr>enable_load_threshold := v\<rparr>))"

definition set_disable_load_threshold ::
  "int \<Rightarrow> param_text \<Rightarrow> hotplug \<Rightarrow> errno option \<times> hotplug" where
  "set_disable_load_threshold num0 val s =
     (case range_checked 40 125 num0 val of
        Inl e \<Rightarrow> (Some e, s)
      | Inr v \<Rightarrow> (None, s\<lparr>disable_load_threshold := v\<rparr>))"

definition set_min_sampling_rate ::
  "int \<Rightarrow> param_text \<Rightarrow> hotplug \<Rightarrow> errno option \<times> hotplug" where
  "set_min_sampling_rate num0 val s =
     (case range_checked 10 50 num0 val of
        Inl e \<Rightarrow> (Some e, s)
      | Inr v \<Rightarrow> (None, s\<lparr>min_sampling_rate := v\<rparr>))"

definition set_sampling_periods ::
  "int \<Rightarrow> param_text \<Rightarrow> hotplug \<Rightarrow> errno option \<times> hotplug" where
  "set_sampling_periods num0 val s =
     (case range_checked 5 50 num0 val of
        Inl e \<Rightarrow> (Some e, s)
      | Inr v \<Rightarrow> (None, s\<lparr>sampling_periods := v\<rparr>))"

text \<open>
  \<^verbatim>\<open>min_online_cpus_set\<close> and \<^verbatim>\<open>max_online_cpus_set\<close> store first and then replace a value
  outside 1 .. \<^verbatim>\<open>CPUS_AVAILABLE\<close> by a default; they return what \<^verbatim>\<open>param_set_int\<close>
  returned.
\<close>

definition min_online_cpus_set :: "param_text \<Rightarrow> hotplug \<Rightarrow> errno option \<times> hotplug" where
  "min_online_cpus_set arg s =
     (case (case param_set_int arg of
              Inl e \<Rightarrow> (Some e, s)
            | Inr v \<Rightarrow> (None, s\<lparr>min_online_cpus := v\<rparr>)) of
        (ret, s1) \<Rightarrow>
          (ret, if min_online_cpus s1 < 1 \<or> CPUS_AVAILABLE s1 < min_online_cpus s1
                then s1\<lparr>min_online_cpus := 1\<rparr> else s1))"

definition max_online_cpus_set :: "param_text \<Rightarrow> hotplug \<Rightarrow> errno option \<times> hotplug" where
  "max_online_cpus_set arg s =
     (case (case param_set_int arg of
              Inl e \<Rightarrow> (Some e, s)
            | Inr v \<Rightarrow> (None, s\<lparr>max_online_cpus := v\<rparr>)) of
        (ret, s1) \<Rightarrow>
          (ret, if max_online_cpus s1 < 1 \<or> CPUS_AVAILABLE s1 < max_online_cpus s1
                then s1\<lparr>max_online_cpus := CPUS_AVAILABLE s1\<rparr> else s1))"

section \<open>The thermal drivers\<close>

text \<open>
  The repository holds two versions of the thermal driver. \<^verbatim>\<open>drivers/thermal/msm_thermal.c\<close>
  has the shutdown band, signed indices and a stepwise recovery; it is modelled under the
  source's names. The version that follows the hotplug driver in
  \<^verbatim>\<open>arch/arm/kernel/auto_hotplug.c\<close> has the max-throttle band, unsigned indices, a
  tunable \<^verbatim>\<open>min_freq_index\<close> and a recovery that jumps to the top; its definitions carry
  the suffix \<open>_A\<close>.

  The state that both share: \<^verbatim>\<open>enabled\<close>, the fields of \<^verbatim>\<open>msm_thermal_info\<close> that
  the code reads, \<^verbatim>\<open>limited_max_freq\<close>, \<^verbatim>\<open>limit_idx\<close>, \<^verbatim>\<open>limit_idx_high\<close>,
  \<^verbatim>\<open>table\<close> (\<open>None\<close> for NULL, else the array of frequencies with its end marker),
  the static \<^verbatim>\<open>limit_init\<close>, \<^verbatim>\<open>throttle_temp\<close>, and \<^verbatim>\<open>check_temp_work\<close> (the delay
  when it is queued). \<open>freq_limits\<close> lists the calls of
  \<^verbatim>\<open>msm_cpufreq_set_freq_limits(cpu, MSM_CPUFREQ_NO_LIMIT, max_freq)\<close> that succeeded,
  in order.
\<close>

record thermal =
  enabled :: bool
  poll_ms :: u32
  temp_hysteresis_degC :: u32
  freq_step :: u32
  limited_max_freq :: u32
  limit_idx :: u32
  limit_idx_high :: u32
  table :: "u32 list option"
  limit_init :: bool
  throttle_temp :: u32
  check_temp_work :: "u32 option"
  freq_limits :: "(nat \<times> u32) list"

text \<open>\<^verbatim>\<open>msm_thermal.c\<close> adds \<^verbatim>\<open>limit_idx_low\<close>; \<open>poweroff_calls\<close> counts the calls of
  \<^verbatim>\<open>orderly_poweroff(true)\<close>.\<close>

record thermal_B = thermal +
  limit_idx_low :: u32
  poweroff_calls :: nat

record thermal_A = thermal +
  min_freq_index :: u32
  throttle_on :: bool

text \<open>
  What the collaborators answer during one run of \<^verbatim>\<open>check_temp\<close>: the sensor (an error
  or the temperature), \<^verbatim>\<open>cpufreq_frequency_get_table(0)\<close>, and for each CPU whether
  \<^verbatim>\<open>msm_cpufreq_set_freq_limits\<close> succeeds.
\<close>

record sensors =
  tsens_get_temp :: "errno + u32"
  cpufreq_frequency_get_table :: "u32 list option"
  msm_cpufreq_set_freq_limits :: "nat \<Rightarrow> bool"

definition SHUTDOWN_TEMP :: u32 where "SHUTDOWN_TEMP = 80"
definition COOL_TEMP :: u32 where "COOL_TEMP = 40"
definition COOL_TEMP_A :: u32 where "COOL_TEMP_A = 45"
definition MAX_THROTTLE_TEMP :: u32 where "MAX_THROTTLE_TEMP = 74"
definition MAX_THROTTLE_TEMP_A :: u32 where "MAX_THROTTLE_TEMP_A = 80"
definition COOL_TEMP_OFFSET_MS :: u32 where "COOL_TEMP_OFFSET_MS = 250"
definition HOT_TEMP_OFFSET_MS :: u32 where "HOT_TEMP_OFFSET_MS = 250"
definition DEFAULT_MIN_FREQ_INDEX :: u32 where "DEFAULT_MIN_FREQ_INDEX = 7"

text \<open>\<^verbatim>\<open>while (table[i].frequency != CPUFREQ_TABLE_END) i++;\<close>\<close>

function table_end :: "u32 \<Rightarrow> u32 list \<Rightarrow> nat \<Rightarrow> fault + nat" where
  "table_end e t i =
     (if i < length t then (if t ! i \<noteq> e then table_end e t (i + 1) else Inr i)
      else Inl OutOfBounds)"
  by pat_completeness auto
termination
  by (relation "measure (\<lambda>(e, t, i). length t - i)") auto

declare table_end.simps [simp del]

text \<open>\<^verbatim>\<open>table[i].frequency\<close> for a signed and for an unsigned index.\<close>

definition table_at :: "u32 list option \<Rightarrow> int \<Rightarrow> fault + u32" where
  "table_at tbl i =
     (case tbl of
        None \<Rightarrow> Inl OutOfBounds
      | Some t \<Rightarrow> if 0 \<le> i \<and> i < int (length t) then Inr (t ! nat i) else Inl OutOfBounds)"

definition msm_thermal_get_freq_table ::
  "platform \<Rightarrow> sensors \<Rightarrow> thermal_B \<Rightarrow> fault + (errno option \<times> thermal_B)" where
  "msm_thermal_get_freq_table p e s =
     (case cpufreq_frequency_get_table e of
        None \<Rightarrow> Inr (Some EINVAL, s\<lparr>table := None\<rparr>)
      | Some t \<Rightarrow>
          (case table_end (CPUFREQ_TABLE_END p) t 0 of
             Inl f \<Rightarrow> Inl f
           | Inr i \<Rightarrow>
               let s1 = s\<lparr>table := Some t, limit_idx_low := 0,
                          limit_idx_high := of_nat i - 1, limit_idx := of_nat i - 1\<rparr>
               in if word_sle (limit_idx_high s1) 0
                     \<or> word_sle (limit_idx_high s1) (limit_idx_low s1)
                  then Inl BUG else Inr (None, s1)))"

definition update_cpu_max_freq ::
  "sensors \<Rightarrow> nat \<Rightarrow> u32 \<Rightarrow> 'a thermal_scheme \<Rightarrow> 'a thermal_scheme" where
  "update_cpu_max_freq e cpu max_freq s =
     (if \<not> msm_cpufreq_set_freq_limits e cpu then s
      else s\<lparr>limited_max_freq := max_freq, freq_limits := freq_limits s @ [(cpu, max_freq)]\<rparr>)"

text \<open>The label \<^verbatim>\<open>setmaxfreq\<close>: \<^verbatim>\<open>for_each_possible_cpu(cpu) update_cpu_max_freq(cpu, max_freq)\<close>.\<close>

definition setmaxfreq ::
  "platform \<Rightarrow> sensors \<Rightarrow> u32 \<Rightarrow> 'a thermal_scheme \<Rightarrow> 'a thermal_scheme" where
  "setmaxfreq p e max_freq s =
     fold (\<lambda>cpu t. update_cpu_max_freq e cpu max_freq t) [0 ..< nr_possible_cpus p] s"

definition schedule_check_temp :: "u32 \<Rightarrow> 'a thermal_scheme \<Rightarrow> 'a thermal_scheme" where
  "schedule_check_temp d s =
     (if check_temp_work s = None then s\<lparr>check_temp_work := Some d\<rparr> else s)"

text \<open>The label \<^verbatim>\<open>reschedule\<close>; \<open>cool\<close> is the version's \<^verbatim>\<open>COOL_TEMP\<close> and \<open>faster\<close> its
  \<^verbatim>\<open>near_limit\<close> or \<^verbatim>\<open>poll_faster\<close>.\<close>

definition reschedule ::
  "platform \<Rightarrow> u32 \<Rightarrow> u32 \<Rightarrow> bool \<Rightarrow> 'a thermal_scheme \<Rightarrow> 'a thermal_scheme" where
  "reschedule p cool temp faster s =
     (if enabled s then
        (if cool < temp then
           (if faster
            then schedule_check_temp (msecs_to_jiffies p (poll_ms s - HOT_TEMP_OFFSET_MS)) s
            else schedule_check_temp (msecs_to_jiffies p (poll_ms s)) s)
         else schedule_check_temp (msecs_to_jiffies p (poll_ms s + COOL_TEMP_OFFSET_MS)) s)
      else s)"

text \<open>
  \<^verbatim>\<open>check_temp\<close> of \<^verbatim>\<open>msm_thermal.c\<close>, in four parts: the lazy table read, the two
  stepping bands, everything from the shutdown band on, and the function itself.
  \<^verbatim>\<open>temp\<close> starts at 0 and keeps that value when
  the sensor fails; \<^verbatim>\<open>max_freq\<close> starts at \<^verbatim>\<open>limited_max_freq\<close>. The subtraction
  \<^verbatim>\<open>throttle_temp - msm_thermal_info.temp_hysteresis_degC\<close> and the comparisons with
  \<^verbatim>\<open>temp\<close> are unsigned; \<^verbatim>\<open>limit_idx -= freq_step\<close> and \<^verbatim>\<open>limit_idx += freq_step\<close>
  wrap at 32 bits and the comparisons of the indices are signed.
\<close>

text \<open>Lines 126 to 132: resolve the table until that has succeeded once.\<close>

definition lazy_freq_table ::
  "platform \<Rightarrow> sensors \<Rightarrow> thermal_B \<Rightarrow> fault + (errno option \<times> thermal_B)" where
  "lazy_freq_table p e s =
     (if \<not> limit_init s
      then (case msm_thermal_get_freq_table p e s of
              Inl f \<Rightarrow> Inl f
            | Inr (Some err, s1) \<Rightarrow> Inr (Some err, s1)
            | Inr (None, s1) \<Rightarrow> Inr (None, s1\<lparr>limit_init := True\<rparr>))
      else Inr (None, s))"

text \<open>
  Lines 152 to 172: the throttle band and the recovery band. The result is \<open>None\<close>
  for \<^verbatim>\<open>goto reschedule\<close>, else the new \<^verbatim>\<open>max_freq\<close> and the state.
\<close>

definition step_limit :: "platform \<Rightarrow> u32 \<Rightarrow> thermal_B \<Rightarrow> fault + (u32 \<times> thermal_B) option" where
  "step_limit p temp s =
     (if throttle_temp s \<le> temp then
        (if limit_idx s = limit_idx_low s then Inr None
         else
           let idx = limit_idx s - freq_step s;
               s1 = s\<lparr>limit_idx := (if word_sless idx (limit_idx_low s)
                                     then limit_idx_low s else idx)\<rparr>
           in (case table_at (table s1) (sint (limit_idx s1)) of
                 Inl f \<Rightarrow> Inl f
               | Inr max_freq \<Rightarrow> Inr (Some (max_freq, s1))))
      else if temp < throttle_temp s - temp_hysteresis_degC s then
        (if limit_idx s = limit_idx_high s then Inr None
         else
           let idx = limit_idx s + freq_step s in
           if word_sle (limit_idx_high s) idx
           then Inr (Some (MSM_CPUFREQ_NO_LIMIT p, s\<lparr>limit_idx := limit_idx_high s\<rparr>))
           else
             (let s1 = s\<lparr>limit_idx := idx\<rparr> in
              case table_at (table s1) (sint (limit_idx s1)) of
                Inl f \<Rightarrow> Inl f
              | Inr max_freq \<Rightarrow> Inr (Some (max_freq, s1))))
      else Inr (Some (limited_max_freq s, s)))"

text \<open>Lines 134 to 208: the shutdown band, the two bands above, \<^verbatim>\<open>setmaxfreq\<close> and
  \<^verbatim>\<open>reschedule\<close>.\<close>

definition limit_bands :: "platform \<Rightarrow> sensors \<Rightarrow> u32 \<Rightarrow> thermal_B \<Rightarrow> fault + thermal_B" where
  "limit_bands p e temp s =
     (if SHUTDOWN_TEMP \<le> temp then
        (let s1 = s\<lparr>poweroff_calls := poweroff_calls s + 1\<rparr> in
         case table_at (table s1) (sint (limit_idx s1)) of
           Inl f \<Rightarrow> Inl f
         | Inr max_freq \<Rightarrow>
             Inr (reschedule p COOL_TEMP temp False
                    (setmaxfreq p e max_freq (s1\<lparr>enabled := False\<rparr>))))
      else
        (let near_limit = (throttle_temp s - temp_hysteresis_degC s < temp) in
         case step_limit p temp s of
           Inl f \<Rightarrow> Inl f
         | Inr None \<Rightarrow> Inr (reschedule p COOL_TEMP temp near_limit s)
         | Inr (Some (max_freq, s1)) \<Rightarrow>
             if max_freq = limited_max_freq s1
             then Inr (reschedule p COOL_TEMP temp near_limit s1)
             else Inr (reschedule p COOL_TEMP temp near_limit (setmaxfreq p e max_freq s1))))"

definition check_temp :: "platform \<Rightarrow> sensors \<Rightarrow> thermal_B \<Rightarrow> fault + thermal_B" where
  "check_temp p e s0 =
     (case tsens_get_temp e of
        Inl err \<Rightarrow> Inr (reschedule p COOL_TEMP 0 False s0)
      | Inr temp \<Rightarrow>
          (case lazy_freq_table p e s0 of
             Inl f \<Rightarrow> Inl f
           | Inr (Some err, s) \<Rightarrow> Inr (reschedule p COOL_TEMP temp False s)
           | Inr (None, s) \<Rightarrow> limit_bands p e temp s))"

text \<open>
  \<^verbatim>\<open>check_temp\<close> up to the label \<^verbatim>\<open>reschedule\<close> (lines 104 to 186), written out once
  more so that something can happen between the two parts. The result carries the
  locals \<^verbatim>\<open>temp\<close> and \<^verbatim>\<open>near_limit\<close> that the rest of the function reads.
\<close>

definition check_temp_body ::
  "platform \<Rightarrow> sensors \<Rightarrow> thermal_B \<Rightarrow> fault + (u32 \<times> bool \<times> thermal_B)" where
  "check_temp_body p e s0 =
     (case tsens_get_temp e of
        Inl err \<Rightarrow> Inr (0, False, s0)
      | Inr temp \<Rightarrow>
          (case lazy_freq_table p e s0 of
             Inl f \<Rightarrow> Inl f
           | Inr (Some err, s) \<Rightarrow> Inr (temp, False, s)
           | Inr (None, s) \<Rightarrow>
               if SHUTDOWN_TEMP \<le> temp then
                 (let s1 = s\<lparr>poweroff_calls := poweroff_calls s + 1\<rparr> in
                  case table_at (table s1) (sint (limit_idx s1)) of
                    Inl f \<Rightarrow> Inl f
                  | Inr max_freq \<Rightarrow>
                      Inr (temp, False, setmaxfreq p e max_freq (s1\<lparr>enabled := False\<rparr>)))
               else
                 (let near_limit = (throttle_temp s - temp_hysteresis_degC s < temp) in
                  case step_limit p temp s of
                    Inl f \<Rightarrow> Inl f
                  | Inr None \<Rightarrow> Inr (temp, near_limit, s)
                  | Inr (Some (max_freq, s1)) \<Rightarrow>
                      if max_freq = limited_max_freq s1 then Inr (temp, near_limit, s1)
                      else Inr (temp, near_limit, setmaxfreq p e max_freq s1))))"

text \<open>
  The rest of \<^verbatim>\<open>msm_thermal.c\<close>. \<^verbatim>\<open>disable_msm_thermal\<close> takes the work off the queue
  and, when a limit is applied, resets it on every CPU. \<^verbatim>\<open>set_enabled\<close> is the setter of
  the module parameter \<^verbatim>\<open>enabled\<close>: \<^verbatim>\<open>param_set_bool\<close> stores the value (\<open>None\<close> stands
  for text that it rejects, which leaves \<^verbatim>\<open>enabled\<close> as it was), and
  \<^verbatim>\<open>disable_msm_thermal\<close> is called when \<^verbatim>\<open>enabled\<close> then reads 0; a write of 1 has no
  further action, it queues nothing. \<^verbatim>\<open>msm_thermal_init\<close> copies the platform data,
  sets \<^verbatim>\<open>enabled\<close> and queues the work without delay; the other globals have their
  initial values (\<^verbatim>\<open>DEFAULT_THROTTLE_TEMP\<close> is 64).
\<close>

definition disable_msm_thermal :: "platform \<Rightarrow> sensors \<Rightarrow> thermal_B \<Rightarrow> thermal_B" where
  "disable_msm_thermal p e s =
     (let s1 = s\<lparr>check_temp_work := None\<rparr> in
      if limited_max_freq s1 = MSM_CPUFREQ_NO_LIMIT p then s1
      else setmaxfreq p e (MSM_CPUFREQ_NO_LIMIT p) s1)"

definition set_enabled :: "platform \<Rightarrow> sensors \<Rightarrow> bool option \<Rightarrow> thermal_B \<Rightarrow> thermal_B" where
  "set_enabled p e val s =
     (let s1 = (case val of None \<Rightarrow> s | Some b \<Rightarrow> s\<lparr>enabled := b\<rparr>) in
      if \<not> enabled s1 then disable_msm_thermal p e s1 else s1)"

definition msm_thermal_init :: "platform \<Rightarrow> u32 \<Rightarrow> u32 \<Rightarrow> u32 \<Rightarrow> thermal_B" where
  "msm_thermal_init p poll hysteresis fstep =
     schedule_check_temp 0
       \<lparr>enabled = True, poll_ms = poll, temp_hysteresis_degC = hysteresis, freq_step = fstep,
        limited_max_freq = MSM_CPUFREQ_NO_LIMIT p, limit_idx = 0, limit_idx_high = 0,
        table = None, limit_init = False, throttle_temp = 64,
        check_temp_work = None, freq_limits = [],
        limit_idx_low = 0, poweroff_calls = 0\<rparr>"

text \<open>
  The version in \<^verbatim>\<open>auto_hotplug.c\<close>: \<^verbatim>\<open>limit_idx\<close>, \<^verbatim>\<open>min_freq_index\<close>,
  \<^verbatim>\<open>limit_idx_high\<close> and \<^verbatim>\<open>throttle_temp\<close> are \<^verbatim>\<open>unsigned int\<close>, so every
  comparison is unsigned.
\<close>

definition msm_thermal_get_freq_table_A ::
  "platform \<Rightarrow> sensors \<Rightarrow> thermal_A \<Rightarrow> fault + (errno option \<times> thermal_A)" where
  "msm_thermal_get_freq_table_A p e s =
     (case cpufreq_frequency_get_table e of
        None \<Rightarrow> Inr (Some EINVAL, s\<lparr>table := None\<rparr>)
      | Some t \<Rightarrow>
          (case table_end (CPUFREQ_TABLE_END p) t 0 of
             Inl f \<Rightarrow> Inl f
           | Inr i \<Rightarrow>
               let s1 = s\<lparr>table := Some t, min_freq_index := DEFAULT_MIN_FREQ_INDEX,
                          limit_idx_high := of_nat i - 1, limit_idx := of_nat i - 1\<rparr>
               in if limit_idx_high s1 \<le> 0 \<or> limit_idx_high s1 \<le> min_freq_index s1
                  then Inl BUG else Inr (None, s1)))"

text \<open>The three lines that end each band: read \<^verbatim>\<open>table[limit_idx].frequency\<close>, apply it
  to every CPU, reschedule.\<close>

definition apply_limit_A ::
  "platform \<Rightarrow> sensors \<Rightarrow> u32 \<Rightarrow> bool \<Rightarrow> bool \<Rightarrow> thermal_A \<Rightarrow> fault + thermal_A" where
  "apply_limit_A p e temp poll_faster on s =
     (case table_at (table s) (uint (limit_idx s)) of
        Inl f \<Rightarrow> Inl f
      | Inr max_freq \<Rightarrow>
          Inr (reschedule p COOL_TEMP_A temp poll_faster
                 (setmaxfreq p e max_freq (s\<lparr>throttle_on := on\<rparr>))))"

definition check_temp_A :: "platform \<Rightarrow> sensors \<Rightarrow> thermal_A \<Rightarrow> fault + thermal_A" where
  "check_temp_A p e s0 =
     (case tsens_get_temp e of
        Inl err \<Rightarrow> Inr (reschedule p COOL_TEMP_A 0 False s0)
      | Inr temp \<Rightarrow>
          (case (if \<not> limit_init s0
                 then (case msm_thermal_get_freq_table_A p e s0 of
                         Inl f \<Rightarrow> Inl f
                       | Inr (Some err, s1) \<Rightarrow> Inr (Some err, s1)
                       | Inr (None, s1) \<Rightarrow> Inr (None, s1\<lparr>limit_init := True\<rparr>))
                 else Inr (None, s0)) of
             Inl f \<Rightarrow> Inl f
           | Inr (Some err, s) \<Rightarrow> Inr (reschedule p COOL_TEMP_A temp False s)
           | Inr (None, s) \<Rightarrow>
               if MAX_THROTTLE_TEMP_A \<le> temp then
                 apply_limit_A p e temp True True (s\<lparr>limit_idx := min_freq_index s\<rparr>)
               else if temp < throttle_temp s - temp_hysteresis_degC s then
                 (let s1 = s\<lparr>throttle_on := False\<rparr> in
                  if limit_idx s1 = limit_idx_high s1
                  then Inr (reschedule p COOL_TEMP_A temp False s1)
                  else apply_limit_A p e temp False False (s1\<lparr>limit_idx := limit_idx_high s1\<rparr>))
               else if throttle_temp s \<le> temp then
                 (if limit_idx s = min_freq_index s
                  then Inr (reschedule p COOL_TEMP_A temp True s)
                  else
                    let idx = limit_idx s - freq_step s
                    in apply_limit_A p e temp True True
                         (s\<lparr>limit_idx := (if idx < min_freq_index s then min_freq_index s
                                           else idx)\<rparr>))
               else
                 (let s1 = s\<lparr>throttle_on := False\<rparr> in
                  if limit_idx s1 = limit_idx_high s1
                  then Inr (reschedule p COOL_TEMP_A temp True s1)
                  else apply_limit_A p e temp True False (s1\<lparr>limit_idx := limit_idx_high s1\<rparr>))))"

text \<open>The thermal setters: \<^verbatim>\<open>set_throttle_temp\<close> of both versions and \<^verbatim>\<open>set_min_freq_index\<close>.\<close>

definition set_throttle_temp ::
  "int \<Rightarrow> param_text \<Rightarrow> 'a thermal_scheme \<Rightarrow> errno option \<times> 'a thermal_scheme" where
  "set_throttle_temp num0 val s =
     (case range_checked (uint COOL_TEMP) (uint MAX_THROTTLE_TEMP) num0 val of
        Inl e \<Rightarrow> (Some e, s)
      | Inr v \<Rightarrow> (None, s\<lparr>throttle_temp := v\<rparr>))"

definition set_throttle_temp_A ::
  "int \<Rightarrow> param_text \<Rightarrow> 'a thermal_scheme \<Rightarrow> errno option \<times> 'a thermal_scheme" where
  "set_throttle_temp_A num0 val s =
     (case range_checked (uint COOL_TEMP_A) (uint MAX_THROTTLE_TEMP_A) num0 val of
        Inl e \<Rightarrow> (Some e, s)
      | Inr v \<Rightarrow> (None, s\<lparr>throttle_temp := v\<rparr>))"

definition set_min_freq_index ::
  "int \<Rightarrow> param_text \<Rightarrow> thermal_A \<Rightarrow> errno option \<times> thermal_A" where
  "set_min_freq_index num0 val s =
     (case range_checked 4 8 num0 val of
        Inl e \<Rightarrow> (Some e, s)
      | Inr v \<Rightarrow> (None, s\<lparr>min_freq_index := v\<rparr>))"

section \<open>Runs of the drivers\<close>

text \<open>
  The driver's functions as the calls that the kernel can make: the work queue runs a
  work item (it clears the item's pending state before it calls the function; for the
  decision work the call carries what \<^verbatim>\<open>nr_running()\<close> returns and whether
  \<^verbatim>\<open>krealloc\<close> succeeds), another driver calls \<^verbatim>\<open>hotplug_disable\<close> or
  \<^verbatim>\<open>hotplug_boostpulse\<close>, the display suspends or resumes, a tunable is written.
  \<^verbatim>\<open>hotplug_boost_online_work\<close> is declared and never initialised: it has no function.
\<close>

datatype tunable =
    Enable_all_load_threshold
  | Enable_load_threshold
  | Disable_load_threshold
  | Min_sampling_rate
  | Sampling_periods
  | Min_online_cpus
  | Max_online_cpus

datatype call =
    Run work u32 bool
  | Disable bool
  | Boostpulse
  | Early_suspend
  | Late_resume
  | Write tunable int param_text

definition work_fn :: "platform \<Rightarrow> work \<Rightarrow> u32 \<Rightarrow> bool \<Rightarrow> hotplug \<Rightarrow> fault + hotplug" where
  "work_fn p w nr_running krealloc_ok s =
     (case w of
        hotplug_decision_work \<Rightarrow> hotplug_decision_work_fn p nr_running krealloc_ok s
      | hotplug_unpause_work \<Rightarrow> Inr (hotplug_unpause_work_fn s)
      | hotplug_online_all_work \<Rightarrow> Inr (hotplug_online_all_work_fn p s)
      | hotplug_online_single_work \<Rightarrow> Inr (hotplug_online_single_work_fn p s)
      | hotplug_offline_work \<Rightarrow> Inr (hotplug_offline_work_fn p s)
      | hotplug_offline_all_work \<Rightarrow> Inr (hotplug_offline_all_work_fn p s)
      | hotplug_boost_online_work \<Rightarrow> Inr s)"

definition write_tunable :: "tunable \<Rightarrow> int \<Rightarrow> param_text \<Rightarrow> hotplug \<Rightarrow> errno option \<times> hotplug" where
  "write_tunable t num0 val s =
     (case t of
        Enable_all_load_threshold \<Rightarrow> set_enable_all_load_threshold num0 val s
      | Enable_load_threshold \<Rightarrow> set_enable_load_threshold num0 val s
      | Disable_load_threshold \<Rightarrow> set_disable_load_threshold num0 val s
      | Min_sampling_rate \<Rightarrow> set_min_sampling_rate num0 val s
      | Sampling_periods \<Rightarrow> set_sampling_periods num0 val s
      | Min_online_cpus \<Rightarrow> min_online_cpus_set val s
      | Max_online_cpus \<Rightarrow> max_online_cpus_set val s)"

definition dequeue :: "work \<Rightarrow> hotplug \<Rightarrow> hotplug" where
  "dequeue w s = s\<lparr>pending := (pending s)(w := None)\<rparr>"

fun exec :: "platform \<Rightarrow> call \<Rightarrow> hotplug \<Rightarrow> fault + hotplug" where
  "exec p (Run w nr_running krealloc_ok) s = work_fn p w nr_running krealloc_ok (dequeue w s)"
| "exec p (Disable flag) s = Inr (hotplug_disable flag s)"
| "exec p Boostpulse s = Inr (hotplug_boostpulse p s)"
| "exec p Early_suspend s = Inr (auto_hotplug_early_suspend s)"
| "exec p Late_resume s = auto_hotplug_late_resume p s"
| "exec p (Write t num0 val) s = Inr (snd (write_tunable t num0 val s))"

fun run :: "platform \<Rightarrow> call list \<Rightarrow> hotplug \<Rightarrow> fault + hotplug" where
  "run p [] s = Inr s"
| "run p (c # cs) s = (case exec p c s of Inl f \<Rightarrow> Inl f | Inr s1 \<Rightarrow> run p cs s1)"

text \<open>The call is a run of the decision work that takes the single-off branch.\<close>

fun single_off_fires :: "call \<Rightarrow> hotplug \<Rightarrow> bool" where
  "single_off_fires (Run w nr_running krealloc_ok) s =
     (w = hotplug_decision_work \<and>
      (case sample_load nr_running krealloc_ok (dequeue w s) of
         Inl f \<Rightarrow> False
       | Inr (avg_running, s1) \<Rightarrow> decide s1 avg_running = Single_off))"
| "single_off_fires c s = False"

text \<open>No call of the run, made from the state it meets, takes the single-off branch.\<close>

fun no_single_off :: "platform \<Rightarrow> call list \<Rightarrow> hotplug \<Rightarrow> bool" where
  "no_single_off p [] s = True"
| "no_single_off p (c # cs) s =
     (\<not> single_off_fires c s \<and>
      (case exec p c s of Inl f \<Rightarrow> True | Inr s1 \<Rightarrow> no_single_off p cs s1))"

text \<open>
  The sampling half of the decision step over a sequence of \<^verbatim>\<open>nr_running()\<close> values,
  with the averages it computes.
\<close>

fun feed :: "u32 list \<Rightarrow> hotplug \<Rightarrow> fault + (u32 list \<times> hotplug)" where
  "feed [] s = Inr ([], s)"
| "feed (x # xs) s =
     (case sample_load x False s of
        Inl f \<Rightarrow> Inl f
      | Inr (avg, s1) \<Rightarrow>
          (case feed xs s1 of Inl f \<Rightarrow> Inl f | Inr (avgs, s2) \<Rightarrow> Inr (avg # avgs, s2)))"

text \<open>
  The specification's moving average, in its words: the sum of the last \<open>n\<close> samples
  (each \<^verbatim>\<open>nr_running() * 100\<close>) divided by \<open>n\<close>.
\<close>

definition spec_moving_average :: "nat \<Rightarrow> u32 list \<Rightarrow> u32" where
  "spec_moving_average n xs = sum_list (take n (rev (map (\<lambda>x. x * 100) xs))) div of_nat n"

text \<open>\<^verbatim>\<open>check_temp\<close> over a sequence of sensor answers.\<close>

fun check_temps :: "platform \<Rightarrow> sensors list \<Rightarrow> thermal_B \<Rightarrow> fault + thermal_B" where
  "check_temps p [] s = Inr s"
| "check_temps p (e # es) s =
     (case check_temp p e s of Inl f \<Rightarrow> Inl f | Inr s1 \<Rightarrow> check_temps p es s1)"

text \<open>
  The range that the source documents for each tunable in its \<^verbatim>\<open>MODULE_PARM_DESC\<close>:
  \<^verbatim>\<open>(270-550)\<close>, \<^verbatim>\<open>(130-250)\<close>, \<^verbatim>\<open>(40-125)\<close>, \<^verbatim>\<open>(10-50ms)\<close>, \<^verbatim>\<open>(5-50)\<close>, and
  \<^verbatim>\<open>(1-#CPUs)\<close> for the two core counts.
\<close>

definition documented_range :: "tunable \<Rightarrow> hotplug \<Rightarrow> int \<times> int" where
  "documented_range t s =
     (case t of
        Enable_all_load_threshold \<Rightarrow> (270, 550)
      | Enable_load_threshold \<Rightarrow> (130, 250)
      | Disable_load_threshold \<Rightarrow> (40, 125)
      | Min_sampling_rate \<Rightarrow> (10, 50)
      | Sampling_periods \<Rightarrow> (5, 50)
      | Min_online_cpus \<Rightarrow> (1, int (length (cpu_online s)))
      | Max_online_cpus \<Rightarrow> (1, int (length (cpu_online s))))"

text \<open>The sensor answers with a temperature at or above \<^verbatim>\<open>SHUTDOWN_TEMP\<close>.\<close>

definition hot :: "sensors \<Rightarrow> bool" where
  "hot e = (case tsens_get_temp e of Inl err \<Rightarrow> False | Inr temp \<Rightarrow> SHUTDOWN_TEMP \<le> temp)"

text \<open>
  The index that the throttle band and the recovery band of \<^verbatim>\<open>msm_thermal.c\<close> aim
  at, as an integer: down by the step but not below 0 at or above the throttle
  temperature, up by the step but not above the top below the throttle temperature
  minus the hysteresis, unchanged in between.
\<close>

definition next_index :: "thermal_B \<Rightarrow> u32 \<Rightarrow> int" where
  "next_index s temp =
     (if throttle_temp s \<le> temp then max 0 (sint (limit_idx s) - uint (freq_step s))
      else if temp < throttle_temp s - temp_hysteresis_degC s
           then min (sint (limit_idx_high s)) (sint (limit_idx s) + uint (freq_step s))
      else sint (limit_idx s))"

text \<open>
  The driver of \<^verbatim>\<open>msm_thermal.c\<close> has resolved its table, the index is within
  0 .. \<^verbatim>\<open>limit_idx_high\<close>, and adding the step to an index of the range does not wrap.
\<close>

definition resolved_in_range :: "thermal_B \<Rightarrow> bool" where
  "resolved_in_range s =
     (limit_init s \<and> limit_idx_low s = 0
      \<and> 0 \<le> sint (limit_idx s) \<and> sint (limit_idx s) \<le> sint (limit_idx_high s)
      \<and> sint (limit_idx_high s) + uint (freq_step s) < 2 ^ 31
      \<and> (case table s of None \<Rightarrow> False | Some t \<Rightarrow> sint (limit_idx_high s) < int (length t)))"

subsection \<open>The thermal work and writes of \<open>enabled\<close>\<close>

text \<open>
  \<^verbatim>\<open>check_temp\<close> is static and runs only as \<^verbatim>\<open>check_temp_work\<close>: the work is queued by
  \<^verbatim>\<open>msm_thermal_init\<close> and then by the run itself, as the last thing it does, so two
  runs do not overlap. What happens to the driver after its start is therefore a
  sequence of these events:
  \<^item> \<open>Poll\<close>: the work queue runs the work, if it is queued (it is taken off the queue
    first), with what the collaborators answer during that run;
  \<^item> \<open>Set_enabled\<close>: the module parameter \<^verbatim>\<open>enabled\<close> is written between two runs;
  \<^item> \<open>Poll_written\<close>: a run during which 1 is written to \<^verbatim>\<open>enabled\<close> when the run
    stands at the label \<^verbatim>\<open>reschedule\<close>, that is after line 140 could have cleared
    \<^verbatim>\<open>enabled\<close> and before line 189 tests it. The setter does nothing else for a 1,
    and nothing between the two lines reads \<^verbatim>\<open>enabled\<close>, so the place of the write
    between them makes no difference.
\<close>

datatype event = Poll sensors | Poll_written sensors | Set_enabled "bool option" sensors

fun thermal_event :: "platform \<Rightarrow> event \<Rightarrow> thermal_B \<Rightarrow> fault + thermal_B" where
  "thermal_event p (Poll e) s =
     (if check_temp_work s = None then Inr s
      else check_temp p e (s\<lparr>check_temp_work := None\<rparr>))"
| "thermal_event p (Poll_written e) s =
     (if check_temp_work s = None then Inr s
      else (case check_temp_body p e (s\<lparr>check_temp_work := None\<rparr>) of
              Inl f \<Rightarrow> Inl f
            | Inr (temp, near_limit, s1) \<Rightarrow>
                Inr (reschedule p COOL_TEMP temp near_limit (s1\<lparr>enabled := True\<rparr>))))"
| "thermal_event p (Set_enabled val e) s = Inr (set_enabled p e val s)"

fun thermal_events :: "platform \<Rightarrow> event list \<Rightarrow> thermal_B \<Rightarrow> fault + thermal_B" where
  "thermal_events p [] s = Inr s"
| "thermal_events p (ev # evs) s =
     (case thermal_event p ev s of Inl f \<Rightarrow> Inl f | Inr s1 \<Rightarrow> thermal_events p evs s1)"

text \<open>The event is a run in the shutdown band with a write of 1 to \<^verbatim>\<open>enabled\<close> inside it.\<close>

fun written_hot :: "event \<Rightarrow> bool" where
  "written_hot (Poll_written e) = hot e"
| "written_hot ev = False"

subsection \<open>\<open>hotplug_disable(true)\<close> interleaved with the work queue\<close>

text \<open>
  For the timing of \<^verbatim>\<open>hotplug_disable(true)\<close> relative to the work functions the call
  is taken statement by statement and the decision step in two parts, split where it
  tests the disabled flag (line 370): that test is the only place where a work function
  reads what the call writes to \<^verbatim>\<open>flags\<close>. The locals that the second part takes from
  the first are those of lines 307 to 311, \<^verbatim>\<open>avg_running\<close>, and the outcome of the
  test; the thresholds, the flags and the queue are read again, as the source does.
\<close>

record locals =
  loc_min_sampling_rate_in_jiffies :: u32
  loc_online_cpus :: u32
  loc_available_cpus :: u32
  loc_disable_load :: u32
  loc_enable_load :: u32
  loc_avg_running :: u32
  loc_enabled :: bool

text \<open>Lines 298 to 370, up to and with the test \<^verbatim>\<open>!(flags & HOTPLUG_DISABLED)\<close>.\<close>

definition decision_upto_test ::
  "platform \<Rightarrow> u32 \<Rightarrow> bool \<Rightarrow> hotplug \<Rightarrow> fault + (locals \<times> hotplug)" where
  "decision_upto_test p nr_running krealloc_ok s0 =
     (case sample_load nr_running krealloc_ok s0 of
        Inl e \<Rightarrow> Inl e
      | Inr (avg, s) \<Rightarrow>
          Inr (\<lparr>loc_min_sampling_rate_in_jiffies = msecs_to_jiffies p (min_sampling_rate s0),
                loc_online_cpus = num_online_cpus s0,
                loc_available_cpus = CPUS_AVAILABLE s0,
                loc_disable_load = disable_load_threshold s0 * num_online_cpus s0,
                loc_enable_load = enable_load_threshold s0 * num_online_cpus s0,
                loc_avg_running = avg,
                loc_enabled = \<not> (flags s AND HOTPLUG_DISABLED \<noteq> 0)\<rparr>, s))"

text \<open>Lines 371 to 421, on the state as it is when the step goes on.\<close>

definition decision_from_test :: "platform \<Rightarrow> locals \<Rightarrow> hotplug \<Rightarrow> hotplug" where
  "decision_from_test p l s =
     (let online_cpus = loc_online_cpus l;
          avg_running = loc_avg_running l;
          sampling_rate = loc_min_sampling_rate_in_jiffies l * (online_cpus * online_cpus)
      in if loc_enabled l
            \<and> enable_all_load_threshold s \<le> avg_running \<and> online_cpus < loc_available_cpus l
            \<and> online_cpus < max_online_cpus s then
           schedule_work hotplug_online_all_work
             (cancel_if_pending hotplug_offline_work (s\<lparr>flags := flags s OR HOTPLUG_PAUSED\<rparr>))
         else if loc_enabled l \<and> flags s AND HOTPLUG_PAUSED \<noteq> 0 then
           schedule_delayed_work hotplug_decision_work (loc_min_sampling_rate_in_jiffies l) s
         else if loc_enabled l
            \<and> loc_enable_load l \<le> avg_running \<and> online_cpus < loc_available_cpus l
            \<and> online_cpus < max_online_cpus s then
           schedule_work hotplug_online_single_work (cancel_if_pending hotplug_offline_work s)
         else if loc_enabled l
            \<and> avg_running \<le> loc_disable_load l \<and> min_online_cpus s < online_cpus then
           (let s1 = (if \<not> delayed_work_pending hotplug_offline_work s
                      then schedule_delayed_work hotplug_offline_work (HZ p) s else s);
                s2 = (if flags s1 AND BOOSTPULSE_ACTIVE \<noteq> 0
                      then s1\<lparr>flags := flags s1 AND NOT BOOSTPULSE_ACTIVE\<rparr> else s1)
            in schedule_delayed_work hotplug_decision_work sampling_rate s2)
         else schedule_delayed_work hotplug_decision_work sampling_rate s)"

text \<open>
  How far the call has come: not made yet, past line 501 (the flag is set), past line
  504 (\<^verbatim>\<open>hotplug_offline_work\<close> cancelled), past line 505 (\<^verbatim>\<open>hotplug_decision_work\<close>
  cancelled), returned.
\<close>

datatype progress = Not_called | Flag_set | Offline_cancelled | Decision_cancelled | Returned

text \<open>
  A configuration: the globals of the driver, the progress of the call, and the
  decision step that is between its two parts, if there is one, with its locals. Three
  components keep the books on which work is from before the call:
  \<^item> \<open>stale w\<close>: the instance of \<open>w\<close> that is on the queue was queued before the call
    began (set when the call begins, cleared when the item leaves the queue);
  \<^item> the flag beside the locals: the decision step in progress began before the call or
    was started from such an instance;
  \<^item> \<open>late\<close>: the steps of work functions that ran after the call had returned on
    behalf of an instance from before the call, in order.
\<close>

record config =
  driver :: hotplug
  disable_at :: progress
  deciding :: "(locals \<times> bool) option"
  stale :: "work \<Rightarrow> bool"
  late :: "work list"

text \<open>
  The steps: the next statement of the call; the work queue starts the decision work
  (with what \<^verbatim>\<open>nr_running()\<close> and \<^verbatim>\<open>krealloc\<close> answer); that decision step goes on
  and finishes; the work queue runs another work item from start to end.
\<close>

datatype action = Disable_step | Decision_begin u32 bool | Decision_end | Work work

text \<open>The driver's new state is taken over; of the instances from before the call those
  remain that are still on the queue.\<close>

definition settle :: "hotplug \<Rightarrow> config \<Rightarrow> config" where
  "settle s c = c\<lparr>driver := s, stale := (\<lambda>w. stale c w \<and> pending s w \<noteq> None)\<rparr>"

text \<open>The queue starts \<open>w\<close>: the start is noted when the instance is from before a call
  that has returned, and the instance is off the queue.\<close>

definition started :: "work \<Rightarrow> config \<Rightarrow> config" where
  "started w c =
     c\<lparr>late := (if stale c w \<and> disable_at c = Returned then late c @ [w] else late c),
       stale := (stale c)(w := False)\<rparr>"

text \<open>
  One step; \<open>None\<close> when the step cannot be taken. The call begins with the tests of
  lines 494 and 500 and, when the flag is clear, line 501; with the flag set it returns
  at once. Lines 504 to 506 follow one by one, and line 505, the
  \<^verbatim>\<open>cancel_delayed_work_sync\<close> of the decision work, cannot be taken while a decision
  step is in progress: the call waits there. The queue starts a work item only when it
  is queued, and the decision work only when no decision step is in progress.
\<close>

fun step :: "platform \<Rightarrow> action \<Rightarrow> config \<Rightarrow> (fault + config) option" where
  "step p Disable_step c =
     (case disable_at c of
        Not_called \<Rightarrow>
          (let c1 = c\<lparr>stale := (\<lambda>w. pending (driver c) w \<noteq> None),
                      deciding := map_option (\<lambda>(l, old). (l, True)) (deciding c)\<rparr>
           in if flags (driver c) AND HOTPLUG_DISABLED \<noteq> 0
              then Some (Inr (c1\<lparr>disable_at := Returned\<rparr>))
              else Some (Inr (c1\<lparr>driver := (driver c)\<lparr>flags := flags (driver c) OR HOTPLUG_DISABLED\<rparr>,
                                  disable_at := Flag_set\<rparr>)))
      | Flag_set \<Rightarrow>
          Some (Inr (settle (cancel_delayed_work_sync hotplug_offline_work (driver c))
                       (c\<lparr>disable_at := Offline_cancelled\<rparr>)))
      | Offline_cancelled \<Rightarrow>
          (if deciding c \<noteq> None then None
           else Some (Inr (settle (cancel_delayed_work_sync hotplug_decision_work (driver c))
                             (c\<lparr>disable_at := Decision_cancelled\<rparr>))))
      | Decision_cancelled \<Rightarrow>
          Some (Inr (settle (cancel_delayed_work_sync hotplug_unpause_work (driver c))
                       (c\<lparr>disable_at := Returned\<rparr>)))
      | Returned \<Rightarrow> None)"
| "step p (Decision_begin nr_running krealloc_ok) c =
     (if pending (driver c) hotplug_decision_work = None \<or> deciding c \<noteq> None then None
      else (case decision_upto_test p nr_running krealloc_ok
                   (dequeue hotplug_decision_work (driver c)) of
              Inl f \<Rightarrow> Some (Inl f)
            | Inr (l, s) \<Rightarrow>
                Some (Inr (settle s ((started hotplug_decision_work c)
                             \<lparr>deciding := Some (l, stale c hotplug_decision_work)\<rparr>)))))"
| "step p Decision_end c =
     (case deciding c of
        None \<Rightarrow> None
      | Some (l, old) \<Rightarrow>
          Some (Inr (settle (decision_from_test p l (driver c))
                       (c\<lparr>deciding := None,
                          late := (if old \<and> disable_at c = Returned
                                   then late c @ [hotplug_decision_work] else late c)\<rparr>))))"
| "step p (Work w) c =
     (if w = hotplug_decision_work \<or> pending (driver c) w = None then None
      else (case work_fn p w 0 False (dequeue w (driver c)) of
              Inl f \<Rightarrow> Some (Inl f)
            | Inr s \<Rightarrow> Some (Inr (settle s (started w c)))))"

fun steps :: "platform \<Rightarrow> action list \<Rightarrow> config \<Rightarrow> (fault + config) option" where
  "steps p [] c = Some (Inr c)"
| "steps p (x # xs) c =
     (case step p x c of
        None \<Rightarrow> None
      | Some (Inl f) \<Rightarrow> Some (Inl f)
      | Some (Inr c1) \<Rightarrow> steps p xs c1)"



subsection \<open>Concrete inputs\<close>

text \<open>
  A four-core platform at 100 ticks per second with the header values of
  \<^verbatim>\<open>CPUFREQ_TABLE_END\<close> and \<^verbatim>\<open>MSM_CPUFREQ_NO_LIMIT\<close>, and the hotplug driver right after
  \<^verbatim>\<open>auto_hotplug_init\<close> with two cores online and a zeroed history block.
\<close>

definition mako :: platform where
  "mako = \<lparr>HZ = 100, msecs_to_jiffies = (\<lambda>m. (m + 9) div 10), cpu_up_ok = (\<lambda>cpu. True),
            cpu_down_ok = (\<lambda>cpu. True), CPUFREQ_TABLE_END = 4294967294,
            MSM_CPUFREQ_NO_LIMIT = 4294967295, nr_possible_cpus = 4\<rparr>"

definition booted :: hotplug where
  "booted = auto_hotplug_init mako [True, True, False, False] (\<lambda>i. 0)"

text \<open>The same driver once the boot pause is over and nothing is queued.\<close>

definition idle :: hotplug where
  "idle = booted\<lparr>flags := 0, pending := (\<lambda>w. None)\<rparr>"

text \<open>
  A frequency table of five frequencies and the end marker, and the thermal driver of
  \<^verbatim>\<open>msm_thermal.c\<close> after it has resolved that table: no limit applied, index at the top.
\<close>

definition freqs :: "u32 list" where
  "freqs = [384000, 702000, 1026000, 1242000, 1512000, 4294967294]"

definition resolved :: thermal_B where
  "resolved = \<lparr>enabled = True, poll_ms = 1000, temp_hysteresis_degC = 4, freq_step = 1,
                limited_max_freq = 4294967295, limit_idx = 4, limit_idx_high = 4,
                table = Some freqs, limit_init = True, throttle_temp = 64,
                check_temp_work = None, freq_limits = [],
                limit_idx_low = 0, poweroff_calls = 0\<rparr>"

text \<open>The same driver before its first run.\<close>

definition probed :: thermal_B where
  "probed = \<lparr>enabled = True, poll_ms = 1000, temp_hysteresis_degC = 4, freq_step = 1,
              limited_max_freq = 4294967295, limit_idx = 0, limit_idx_high = 0,
              table = None, limit_init = False, throttle_temp = 64,
              check_temp_work = None, freq_limits = [],
              limit_idx_low = 0, poweroff_calls = 0\<rparr>"

text \<open>The sensor reads \<open>temp\<close>, the table is \<open>tbl\<close>, every limit request succeeds.\<close>

definition reading :: "u32 \<Rightarrow> u32 list option \<Rightarrow> sensors" where
  "reading temp tbl = \<lparr>tsens_get_temp = Inr temp, cpufreq_frequency_get_table = tbl,
                        msm_cpufreq_set_freq_limits = (\<lambda>cpu. True)\<rparr>"

text \<open>
  The driver of \<^verbatim>\<open>auto_hotplug.c\<close> after it has resolved a table of twelve frequencies,
  configured with a frequency step of 12.
\<close>

definition freqs_A :: "u32 list" where
  "freqs_A = [384000, 486000, 594000, 702000, 810000, 918000, 1026000, 1134000,
              1242000, 1350000, 1458000, 1512000, 4294967294]"

definition resolved_A :: thermal_A where
  "resolved_A = \<lparr>enabled = True, poll_ms = 1000, temp_hysteresis_degC = 10, freq_step = 12,
                  limited_max_freq = 4294967295, limit_idx = 11, limit_idx_high = 11,
                  table = Some freqs_A, limit_init = True, throttle_temp = 70,
                  check_temp_work = None, freq_limits = [],
                  min_freq_index = 7, throttle_on = False\<rparr>"

section \<open>Properties\<close>

subsection \<open>Evaluation\<close>

lemma average_loop_unfold:
  "0 < n \<Longrightarrow> average_loop h imax n j a =
     (if unat j < length h
      then average_loop h imax (n - 1) ((if j = 0 then imax else j) - 1) (a + h ! unat j)
      else Inl OutOfBounds)"
  by (cases n) simp_all

lemma booted_eq:
  "booted = \<lparr>flags = 2, enable_all_load_threshold = 400, enable_load_threshold = 200,
     disable_load_threshold = 80, min_sampling_rate = 20, sampling_periods = 10,
     live_sampling_periods = 10, index_max_value = 9, min_online_cpus = 1,
     max_online_cpus = 4, history = [0, 0, 0, 0, 0, 0, 0, 0, 0, 0], index = 0,
     pending = (\<lambda>w. None)(hotplug_decision_work \<mapsto> 500, hotplug_unpause_work \<mapsto> 1000),
     cpu_online = [True, True, False, False]\<rparr>"
  by (simp add: booted_def auto_hotplug_init_def mako_def schedule_delayed_work_def
      HOTPLUG_PAUSED_def DEFAULT_SAMPLING_PERIODS_def DEFAULT_ENABLE_LOAD_THRESHOLD_def
      DEFAULT_DISABLE_LOAD_THRESHOLD_def DEFAULT_MIN_SAMPLING_RATE_def upt_rec)

lemma idle_eq:
  "idle = \<lparr>flags = 0, enable_all_load_threshold = 400, enable_load_threshold = 200,
     disable_load_threshold = 80, min_sampling_rate = 20, sampling_periods = 10,
     live_sampling_periods = 10, index_max_value = 9, min_online_cpus = 1,
     max_online_cpus = 4, history = [0, 0, 0, 0, 0, 0, 0, 0, 0, 0], index = 0,
     pending = (\<lambda>w. None), cpu_online = [True, True, False, False]\<rparr>"
  by (simp add: idle_def booted_eq)

lemma flag_simps:
  "HOTPLUG_DISABLED = 1" "HOTPLUG_PAUSED = 2" "BOOSTPULSE_ACTIVE = 4" "EARLYSUSPEND_ACTIVE = 8"
  by (simp_all add: HOTPLUG_DISABLED_def HOTPLUG_PAUSED_def BOOSTPULSE_ACTIVE_def
      EARLYSUSPEND_ACTIVE_def)

lemma boost_bit: "(f AND BOOSTPULSE_ACTIVE \<noteq> 0) = bit f 2" for f :: u8
  using and_exp_eq_0_iff_not_bit [of f 2] by (simp add: BOOSTPULSE_ACTIVE_def)


lemma paused_bit: "(f AND HOTPLUG_PAUSED \<noteq> 0) = bit f 1" for f :: u8
  using and_exp_eq_0_iff_not_bit [of f 1] by (simp add: HOTPLUG_PAUSED_def)

lemma suspend_bit: "(f AND EARLYSUSPEND_ACTIVE \<noteq> 0) = bit f 3" for f :: u8
  using and_exp_eq_0_iff_not_bit [of f 3] by (simp add: EARLYSUSPEND_ACTIVE_def)

subsection \<open>The moving average\<close>

text \<open>
  What the averaging loop computes when the live period count is the length of the
  history and the index bound is one less, as \<^verbatim>\<open>auto_hotplug_init\<close> sets them: with
  the cursor on the last slot, the sum of all slots; with the cursor on any other slot,
  the sum of all slots but the last plus the cursor's slot once more.
\<close>

lemma unat_pred: "j \<noteq> 0 \<Longrightarrow> unat (j - 1) = unat j - 1" for j :: u32
  by (simp add: unat_minus_one)

lemma descend:
  "n \<le> unat j \<Longrightarrow> unat j < length h \<Longrightarrow>
   average_loop h imax (n + m) j a
     = average_loop h imax m (j - of_nat n) (a + sum ((!) h) {unat j + 1 - n ..< unat j + 1})"
proof (induction n arbitrary: j a)
  case 0
  then show ?case by simp
next
  case (Suc n)
  from Suc.prems(1) have nz: "j \<noteq> 0" by (auto simp: unat_eq_zero)
  then have u: "unat (j - 1) = unat j - 1" by (rule unat_pred)
  from Suc.prems u have p: "n \<le> unat (j - 1)" "unat (j - 1) < length h" by simp_all
  have "average_loop h imax (Suc n + m) j a
      = average_loop h imax (n + m) (j - 1) (a + h ! unat j)"
    using Suc.prems(2) nz by simp
  also have "\<dots> = average_loop h imax m (j - 1 - of_nat n)
      (a + h ! unat j + sum ((!) h) {unat (j - 1) + 1 - n ..< unat (j - 1) + 1})"
    by (rule Suc.IH [OF p])
  also have "j - 1 - of_nat n = j - of_nat (Suc n)" by simp
  also have "a + h ! unat j + sum ((!) h) {unat (j - 1) + 1 - n ..< unat (j - 1) + 1}
      = a + sum ((!) h) {unat j + 1 - Suc n ..< unat j + 1}"
  proof -
    from Suc.prems(1) have "unat j + 1 - Suc n \<le> unat j" by simp
    then have "sum ((!) h) {unat j + 1 - Suc n ..< Suc (unat j)}
        = sum ((!) h) {unat j + 1 - Suc n ..< unat j} + h ! unat j"
      by (rule sum.atLeastLessThan_Suc)
    moreover from Suc.prems(1) u have "unat (j - 1) + 1 - n = unat j + 1 - Suc n"
      "unat (j - 1) + 1 = unat j" by simp_all
    ultimately show ?thesis by (simp add: add.assoc add.commute)
  qed
  finally show ?case .
qed


lemma unat_of_nat_small: "n < 2 ^ 32 \<Longrightarrow> unat (of_nat n :: u32) = n"
  by (simp add: unat_of_nat)

lemma average_loop_window:
  fixes idx :: u32
  assumes len: "length h < 2 ^ 32" and k: "unat idx < length h"
  shows "average_loop h (of_nat (length h - 1)) (length h) idx 0 =
     Inr (if unat idx = length h - 1 then sum ((!) h) {0 ..< length h}
          else sum ((!) h) {0 ..< length h - 1} + h ! unat idx)"
proof -
  define imax :: u32 where "imax = of_nat (length h - 1)"
  define N where "N = length h"
  define k where "k = unat idx"
  from k have pos: "0 < N" and kN: "k < N" by (cases h; simp add: N_def k_def)+
  have kh: "unat idx < length h" "k = unat idx" "N = length h"
    using k by (simp_all add: k_def N_def)
  from kN have e0: "N = k + (N - k)" by simp
  have "average_loop h imax N idx 0 = average_loop h imax (k + (N - k)) idx 0"
    by (subst e0) (rule refl)
  also have "\<dots> = average_loop h imax (N - k) (idx - of_nat k)
      (0 + sum ((!) h) {unat idx + 1 - k ..< unat idx + 1})"
    using kh by (intro descend) simp_all
  also have "idx - of_nat k = 0" by (simp add: k_def)
  also have "0 + sum ((!) h) {unat idx + 1 - k ..< unat idx + 1} = sum ((!) h) {1 ..< k + 1}"
    by (simp add: k_def)
  also have "average_loop h imax (N - k) 0 (sum ((!) h) {1 ..< k + 1})
      = average_loop h imax (N - k - 1) (imax - 1) (sum ((!) h) {1 ..< k + 1} + h ! 0)"
    using kN pos kh by (simp add: average_loop_unfold)
  also have "sum ((!) h) {1 ..< k + 1} + h ! 0 = sum ((!) h) {0 ..< k + 1}"
    by (simp add: sum.atLeast_Suc_lessThan add.commute)
  finally have start: "average_loop h imax N idx 0
      = average_loop h imax (N - k - 1) (imax - 1) (sum ((!) h) {0 ..< k + 1})" .
  have goal: "average_loop h imax N idx 0 =
     Inr (if k = N - 1 then sum ((!) h) {0 ..< N} else sum ((!) h) {0 ..< N - 1} + h ! k)"
  proof (cases "k = N - 1")
    case True
    with start pos show ?thesis by simp
  next
    case False
    with kN have two: "2 \<le> N" and kl: "k < N - 1" by simp_all
    have i1: "imax - 1 = (of_nat (N - 2) :: u32)"
      using two by (simp add: imax_def N_def of_nat_diff)
    have "unat (of_nat (N - 2) :: u32) = N - 2"
      using len by (intro unat_of_nat_small) (simp add: N_def)
    with i1 have top: "unat (imax - 1) = N - 2" by simp
    from top two kh have toplt: "unat (imax - 1) < length h" by simp
    have split: "sum ((!) h) {0 ..< N - 1} + h ! k
        = sum ((!) h) {0 ..< k + 1} + sum ((!) h) {k ..< N - 1}"
    proof -
      have "sum ((!) h) {0 ..< N - 1} = sum ((!) h) {0 ..< k} + sum ((!) h) {k ..< N - 1}"
        using kl by (intro sum.atLeastLessThan_concat [symmetric]) simp_all
      then show ?thesis by simp
    qed
    show ?thesis
    proof (cases "k = 0")
      case True
      from True two have e: "N - k - 1 = (N - 2) + 1" by simp
      have "average_loop h imax (N - k - 1) (imax - 1) (sum ((!) h) {0 ..< k + 1})
          = average_loop h imax ((N - 2) + 1) (imax - 1) (sum ((!) h) {0 ..< k + 1})"
        by (simp only: e)
      also have "\<dots> = average_loop h imax 1 (imax - 1 - of_nat (N - 2))
          (sum ((!) h) {0 ..< k + 1}
             + sum ((!) h) {unat (imax - 1) + 1 - (N - 2) ..< unat (imax - 1) + 1})"
        using top toplt by (intro descend) simp_all
      also have "imax - 1 - of_nat (N - 2) = 0"
        using i1 by simp
      also have "{unat (imax - 1) + 1 - (N - 2) ..< unat (imax - 1) + 1} = {1 ..< N - 1}"
      proof -
        from top two have "unat (imax - 1) + 1 - (N - 2) = 1" "unat (imax - 1) + 1 = N - 1"
          by arith+
        then show ?thesis by (simp only:)
      qed
      also have "average_loop h imax 1 0
            (sum ((!) h) {0 ..< k + 1} + sum ((!) h) {1 ..< N - 1})
          = Inr (sum ((!) h) {0 ..< k + 1} + sum ((!) h) {1 ..< N - 1} + h ! 0)"
        using pos kh by (simp add: average_loop_unfold)
      finally have "average_loop h imax (N - k - 1) (imax - 1) (sum ((!) h) {0 ..< k + 1})
          = Inr (sum ((!) h) {0 ..< k + 1} + sum ((!) h) {1 ..< N - 1} + h ! 0)" .
      moreover have "sum ((!) h) {0 ..< k + 1} + sum ((!) h) {1 ..< N - 1}
          = sum ((!) h) {0 ..< N - 1}"
      proof -
        from two have "0 < N - 1" by simp
        then have "sum ((!) h) {0 ..< N - 1} = h ! 0 + sum ((!) h) {Suc 0 ..< N - 1}"
          by (rule sum.atLeast_Suc_lessThan)
        with True show ?thesis by simp
      qed
      ultimately show ?thesis using start False True by simp
    next
      case nz: False
      have "average_loop h imax (N - k - 1) (imax - 1) (sum ((!) h) {0 ..< k + 1})
          = average_loop h imax ((N - k - 1) + 0) (imax - 1) (sum ((!) h) {0 ..< k + 1})"
        by (simp only: add_0_right)
      also have "\<dots> = average_loop h imax 0 (imax - 1 - of_nat (N - k - 1))
          (sum ((!) h) {0 ..< k + 1}
             + sum ((!) h) {unat (imax - 1) + 1 - (N - k - 1) ..< unat (imax - 1) + 1})"
        using top toplt nz kl by (intro descend) simp_all
      also have "{unat (imax - 1) + 1 - (N - k - 1) ..< unat (imax - 1) + 1} = {k ..< N - 1}"
      proof -
        from top two kl have "unat (imax - 1) + 1 - (N - k - 1) = k"
          "unat (imax - 1) + 1 = N - 1"
          by arith+
        then show ?thesis by (simp only:)
      qed
      finally have "average_loop h imax (N - k - 1) (imax - 1) (sum ((!) h) {0 ..< k + 1})
          = Inr (sum ((!) h) {0 ..< k + 1} + sum ((!) h) {k ..< N - 1})"
        by simp
      with start split False show ?thesis by simp
    qed
  qed
  then show ?thesis by (simp add: imax_def N_def k_def)
qed

text \<open>
  C1. The claim: for every sequence of load samples and every cursor position the average
  of the decision step is the sum of the last N stored samples divided by N. The code
  does not compute that. After the ten samples 0, 0, 0, 0, 0, 0, 0, 0, 0, 10 the cursor
  has wrapped to slot 0; the eleventh sample 0 is stored there, and the loop then reads
  slot 0, resets \<open>j\<close> to 9, decrements it in the loop header and goes on at slot 8. Slot 9,
  which holds 1000, is never read, and slot 0 is read twice: the step computes 0 where
  the last ten samples average to 100. By \<open>average_loop_window\<close> the same happens at
  every cursor position but the last.
\<close>

theorem average_skips_last_slot_after_wrap:
  "map_sum id fst (feed [0, 0, 0, 0, 0, 0, 0, 0, 0, 10, 0] booted)
     = Inr [0, 0, 0, 0, 0, 0, 0, 0, 0, 100, 0]
   \<and> spec_moving_average 10 [0, 0, 0, 0, 0, 0, 0, 0, 0, 10, 0] = 100"
  by (simp add: booted_eq sample_load_def resize_history_def average_loop_unfold Let_def
      spec_moving_average_def)

subsection \<open>Resizing the history\<close>

text \<open>
  C2. The claim: after the sampling-periods tunable changes, the decision step's
  reallocation never reads or writes outside the buffer, and the new index bound is
  below the new buffer length. The code passes the old period count to
  \<^verbatim>\<open>krealloc\<close> and drops the pointer it returns, so the buffer keeps its ten
  elements while the index bound becomes the tunable minus one. Writing 50 to the
  tunable right after boot is accepted; the bound of the next decision step is 49 with
  a buffer of 10 elements, and its averaging loop reads \<open>history[48]\<close>.
\<close>

theorem resize_reads_outside_history:
  "set_sampling_periods 0 (Number 50) booted = (None, booted\<lparr>sampling_periods := 50\<rparr>)
   \<and> index_max_value (resize_history True (booted\<lparr>sampling_periods := 50\<rparr>)) = 49
   \<and> length (history (resize_history True (booted\<lparr>sampling_periods := 50\<rparr>))) = 10
   \<and> hotplug_decision_work_fn mako 0 True (booted\<lparr>sampling_periods := 50\<rparr>)
       = Inl OutOfBounds"
  by (simp add: booted_eq set_sampling_periods_def range_checked_def fits_long_def
      hotplug_decision_work_fn_def sample_load_def resize_history_def average_loop_unfold
      Let_def)

subsection \<open>The boost pulse\<close>

lemma bit_flag_updates:
  "bit (f OR HOTPLUG_PAUSED) 2 = bit f 2"
  "bit (f OR HOTPLUG_DISABLED) 2 = bit f 2"
  "bit (f OR EARLYSUSPEND_ACTIVE) 2 = bit f 2"
  "bit (f OR BOOSTPULSE_ACTIVE) 2"
  "bit (f AND NOT HOTPLUG_PAUSED) 2 = bit f 2"
  "bit (f AND NOT HOTPLUG_DISABLED) 2 = bit f 2"
  "bit (f AND NOT EARLYSUSPEND_ACTIVE) 2 = bit f 2"
  "\<not> bit (f AND NOT BOOSTPULSE_ACTIVE) 2"
  for f :: u8
  by (simp_all add: HOTPLUG_DISABLED_def HOTPLUG_PAUSED_def BOOSTPULSE_ACTIVE_def EARLYSUSPEND_ACTIVE_def
      bit_or_iff bit_and_iff bit_not_iff bit_push_bit_iff bit_1_iff)

lemma flags_queue [simp]:
  "flags (schedule_delayed_work w d s) = flags s"
  "flags (schedule_work w s) = flags s"
  "flags (cancel_delayed_work w s) = flags s"
  "flags (cancel_delayed_work_sync w s) = flags s"
  "flags (cancel_if_pending w s) = flags s"
  "flags (dequeue w s) = flags s"
  "flags (rearm p s) = flags s"
  "flags (cpu_up p cpu s) = flags s"
  "flags (cpu_down p cpu s) = flags s"
  by (simp_all add: schedule_delayed_work_def schedule_work_def cancel_delayed_work_def
      cancel_delayed_work_sync_def cancel_if_pending_def dequeue_def rearm_def cpu_up_def cpu_down_def Let_def)

lemma flags_fold:
  "(\<And>c t. flags (f c t) = flags t) \<Longrightarrow> flags (fold f cs s) = flags s"
  by (induction cs arbitrary: s) simp_all

lemma flags_sample_load: "sample_load nr ok s = Inr (avg, s1) \<Longrightarrow> flags s1 = flags s"
  by (auto simp: sample_load_def resize_history_def Let_def split: if_splits sum.splits)

lemma flags_write [simp]: "flags (snd (write_tunable t num0 val s)) = flags s"
  by (cases t)
     (auto simp: write_tunable_def set_enable_all_load_threshold_def set_enable_load_threshold_def
      set_disable_load_threshold_def set_min_sampling_rate_def set_sampling_periods_def
      min_online_cpus_set_def max_online_cpus_set_def split: sum.splits prod.splits)

lemma decision_keeps_boost:
  assumes "bit (flags s) 2" and "hotplug_decision_work_fn p nr ok s = Inr s'"
    and "\<not> (case sample_load nr ok s of Inl f \<Rightarrow> False | Inr (avg, s1) \<Rightarrow> decide s1 avg = Single_off)"
  shows "bit (flags s') 2"
proof -
  from assms(2) obtain avg s1 where sl: "sample_load nr ok s = Inr (avg, s1)"
    by (auto simp: hotplug_decision_work_fn_def split: sum.splits)
  then have f1: "flags s1 = flags s" by (rule flags_sample_load)
  from assms(3) sl have nso: "decide s1 avg \<noteq> Single_off" by simp
  from assms(2) sl nso f1 assms(1) show ?thesis
    by (cases "decide s1 avg") (auto simp: hotplug_decision_work_fn_def bit_flag_updates)
qed

lemma decision_clears_boost:
  assumes "hotplug_decision_work_fn p nr ok s = Inr s'"
    and "(case sample_load nr ok s of Inl f \<Rightarrow> False | Inr (avg, s1) \<Rightarrow> decide s1 avg = Single_off)"
  shows "\<not> bit (flags s') 2"
proof -
  from assms(1) obtain avg s1 where sl: "sample_load nr ok s = Inr (avg, s1)"
    by (auto simp: hotplug_decision_work_fn_def split: sum.splits)
  from assms(2) sl have so: "decide s1 avg = Single_off" by simp
  from assms(1) sl so show ?thesis
    by (auto simp: hotplug_decision_work_fn_def boost_bit bit_flag_updates Let_def split: if_splits)
qed

lemma exec_keeps_boost:
  assumes "bit (flags s) 2" and "\<not> single_off_fires c s" and "exec p c s = Inr s'"
  shows "bit (flags s') 2"
proof (cases c)
  case (Run w nr ok)
  show ?thesis
  proof (cases w)
    case hotplug_decision_work
    with Run assms show ?thesis
      using decision_keeps_boost [of "dequeue w s" p nr ok s']
      by (simp add: work_fn_def)
  next
    case hotplug_unpause_work
    with Run assms show ?thesis
      by (auto simp: work_fn_def hotplug_unpause_work_fn_def bit_flag_updates)
  next
    case hotplug_online_all_work
    with Run assms show ?thesis
      by (auto simp: work_fn_def hotplug_online_all_work_fn_def Let_def flags_fold)
  next
    case hotplug_online_single_work
    with Run assms show ?thesis
      by (auto simp: work_fn_def hotplug_online_single_work_fn_def Let_def split: option.splits)
  next
    case hotplug_offline_work
    with Run assms show ?thesis
      by (auto simp: work_fn_def hotplug_offline_work_fn_def Let_def split: option.splits)
  next
    case hotplug_offline_all_work
    with Run assms show ?thesis
      by (auto simp: work_fn_def hotplug_offline_all_work_fn_def flags_fold)
  next
    case hotplug_boost_online_work
    with Run assms show ?thesis
      by (auto simp: work_fn_def)
  qed
next
  case (Disable flag)
  with assms show ?thesis
    by (auto simp: hotplug_disable_def bit_flag_updates split: if_splits)
next
  case Boostpulse
  with assms show ?thesis
    by (auto simp: hotplug_boostpulse_def boost_bit Let_def split: if_splits)
next
  case Early_suspend
  with assms show ?thesis
    by (auto simp: auto_hotplug_early_suspend_def bit_flag_updates Let_def split: if_splits)
next
  case Late_resume
  with assms show ?thesis
    by (auto simp: auto_hotplug_late_resume_def bit_flag_updates Let_def split: if_splits)
next
  case (Write t num0 val)
  with assms show ?thesis by auto
qed

lemma run_keeps_boost:
  "bit (flags s) 2 \<Longrightarrow> no_single_off p cs s \<Longrightarrow> run p cs s = Inr s' \<Longrightarrow> bit (flags s') 2"
proof (induction cs arbitrary: s)
  case Nil
  then show ?case by simp
next
  case (Cons c cs)
  from Cons.prems(3) obtain s1 where e: "exec p c s = Inr s1" and r: "run p cs s1 = Inr s'"
    by (auto split: sum.splits)
  from Cons.prems(2) e have n: "\<not> single_off_fires c s" and n1: "no_single_off p cs s1"
    by simp_all
  from exec_keeps_boost [OF Cons.prems(1) n e] have "bit (flags s1) 2" .
  from Cons.IH [OF this n1 r] show ?case .
qed

lemma boostpulse_inert: "bit (flags s) 2 \<Longrightarrow> hotplug_boostpulse p s = s"
  by (simp add: hotplug_boostpulse_def boost_bit Let_def)


lemma single_off_clears_boost:
  assumes "single_off_fires c s"
  shows "\<exists>s'. exec p c s = Inr s' \<and> flags s' AND BOOSTPULSE_ACTIVE = 0"
proof -
  from assms obtain nr ok where c: "c = Run hotplug_decision_work nr ok"
    by (cases c) auto
  let ?s = "dequeue hotplug_decision_work s"
  from assms c obtain avg s1 where sl: "sample_load nr ok ?s = Inr (avg, s1)"
    and so: "decide s1 avg = Single_off"
    by (auto split: sum.splits)
  from sl so obtain s' where d: "hotplug_decision_work_fn p nr ok ?s = Inr s'"
    by (simp add: hotplug_decision_work_fn_def Let_def)
  from decision_clears_boost [OF d] sl so have "\<not> bit (flags s') 2" by simp
  then have "flags s' AND BOOSTPULSE_ACTIVE = 0" using boost_bit [of "flags s'"] by blast
  with d c show ?thesis by (simp add: work_fn_def)
qed

text \<open>
  C10. When none of the disabled, suspend and boost flags is set, at least two cores are
  online, fewer than \<^verbatim>\<open>max_online_cpus\<close>, and no offline work is queued,
  \<^verbatim>\<open>hotplug_boostpulse\<close> sets the boost flag and does nothing else: the work queue is
  as before. From then on, over every run of calls of the driver in which the decision
  work does not take its single-off branch, the flag stays set and
  \<^verbatim>\<open>hotplug_boostpulse\<close> changes nothing. A decision step that takes the single-off
  branch returns with the flag clear.
\<close>

theorem boostpulse_sets_flag_and_goes_inert:
  assumes "flags s AND (EARLYSUSPEND_ACTIVE OR HOTPLUG_DISABLED) = 0"
    and "flags s AND BOOSTPULSE_ACTIVE = 0"
    and "2 \<le> num_online_cpus s"
    and "num_online_cpus s < max_online_cpus s"
    and "\<not> delayed_work_pending hotplug_offline_work s"
  shows "hotplug_boostpulse p s = s\<lparr>flags := flags s OR BOOSTPULSE_ACTIVE\<rparr>
    \<and> pending (hotplug_boostpulse p s) = pending s
    \<and> (\<forall>cs. no_single_off p cs (hotplug_boostpulse p s) \<longrightarrow>
          (case run p cs (hotplug_boostpulse p s) of
             Inl f \<Rightarrow> True
           | Inr s' \<Rightarrow> flags s' AND BOOSTPULSE_ACTIVE \<noteq> 0 \<and> hotplug_boostpulse p s' = s'))
    \<and> (\<forall>c s'. single_off_fires c s' \<longrightarrow>
          (\<exists>s''. exec p c s' = Inr s'' \<and> flags s'' AND BOOSTPULSE_ACTIVE = 0))"
proof -
  from assms(3) have two: "\<not> num_online_cpus s < 2"
    by (simp add: not_less)
  from assms two have a: "hotplug_boostpulse p s = s\<lparr>flags := flags s OR BOOSTPULSE_ACTIVE\<rparr>"
    by (simp add: hotplug_boostpulse_def Let_def delayed_work_pending_def)
  then have b: "bit (flags (hotplug_boostpulse p s)) 2"
    by (simp add: bit_flag_updates)
  have c: "case run p cs (hotplug_boostpulse p s) of
             Inl f \<Rightarrow> True
           | Inr s' \<Rightarrow> flags s' AND BOOSTPULSE_ACTIVE \<noteq> 0 \<and> hotplug_boostpulse p s' = s'"
    if "no_single_off p cs (hotplug_boostpulse p s)" for cs
  proof (cases "run p cs (hotplug_boostpulse p s)")
    case (Inl f)
    then show ?thesis by simp
  next
    case (Inr s')
    from run_keeps_boost [OF b that Inr] have "bit (flags s') 2" .
    with Inr show ?thesis by (simp add: boost_bit boostpulse_inert)
  qed
  from a c single_off_clears_boost show ?thesis by simp
qed

theorem boostpulse_sets_flag_and_goes_inert_witness:
  "flags idle AND (EARLYSUSPEND_ACTIVE OR HOTPLUG_DISABLED) = 0
   \<and> flags idle AND BOOSTPULSE_ACTIVE = 0
   \<and> 2 \<le> num_online_cpus idle
   \<and> num_online_cpus idle < max_online_cpus idle
   \<and> \<not> delayed_work_pending hotplug_offline_work idle
   \<and> hotplug_boostpulse mako idle = idle\<lparr>flags := 4\<rparr>
   \<and> no_single_off mako [Boostpulse, Run hotplug_decision_work 10 False] (idle\<lparr>flags := 4\<rparr>)
   \<and> map_sum id (\<lambda>s'. flags s' AND BOOSTPULSE_ACTIVE)
        (run mako [Boostpulse, Run hotplug_decision_work 10 False] (idle\<lparr>flags := 4\<rparr>)) = Inr 4
   \<and> single_off_fires (Run hotplug_decision_work 0 False) (idle\<lparr>flags := 4\<rparr>)
   \<and> map_sum id (\<lambda>s'. flags s' AND BOOSTPULSE_ACTIVE)
        (exec mako (Run hotplug_decision_work 0 False) (idle\<lparr>flags := 4\<rparr>)) = Inr 0"
proof -
  have h1: "flags idle AND (EARLYSUSPEND_ACTIVE OR HOTPLUG_DISABLED) = 0"
    and h2: "flags idle AND BOOSTPULSE_ACTIVE = 0"
    and h3: "2 \<le> num_online_cpus idle"
    and h4: "num_online_cpus idle < max_online_cpus idle"
    and h5: "\<not> delayed_work_pending hotplug_offline_work idle"
    by (simp_all add: idle_eq num_online_cpus_def delayed_work_pending_def)
  note t = boostpulse_sets_flag_and_goes_inert [OF h1 h2 h3 h4 h5, of mako]
  from t have e: "hotplug_boostpulse mako idle = idle\<lparr>flags := 4\<rparr>"
    by (simp add: flag_simps idle_eq)
  have n: "no_single_off mako [Boostpulse, Run hotplug_decision_work 10 False] (idle\<lparr>flags := 4\<rparr>)"
    by (simp add: idle_eq mako_def work_fn_def dequeue_def hotplug_decision_work_fn_def
        sample_load_def resize_history_def average_loop_unfold decide_def num_online_cpus_def
        CPUS_AVAILABLE_def flag_simps hotplug_boostpulse_def Let_def)
  have f: "single_off_fires (Run hotplug_decision_work 0 False) (idle\<lparr>flags := 4\<rparr>)"
    by (simp add: idle_eq dequeue_def sample_load_def resize_history_def average_loop_unfold
        decide_def num_online_cpus_def CPUS_AVAILABLE_def flag_simps Let_def)
  from t [unfolded e] n
  have r: "case run mako [Boostpulse, Run hotplug_decision_work 10 False] (idle\<lparr>flags := 4\<rparr>) of
             Inl f \<Rightarrow> True
           | Inr s' \<Rightarrow> flags s' AND BOOSTPULSE_ACTIVE \<noteq> 0 \<and> hotplug_boostpulse mako s' = s'"
    by blast
  have r': "map_sum id (\<lambda>s'. flags s' AND BOOSTPULSE_ACTIVE)
        (run mako [Boostpulse, Run hotplug_decision_work 10 False] (idle\<lparr>flags := 4\<rparr>)) = Inr 4"
    by (simp add: idle_eq mako_def work_fn_def dequeue_def hotplug_decision_work_fn_def
        sample_load_def resize_history_def average_loop_unfold decide_def num_online_cpus_def
        CPUS_AVAILABLE_def flag_simps hotplug_boostpulse_def rearm_def schedule_delayed_work_def Let_def)
  from t f obtain s'' where x: "exec mako (Run hotplug_decision_work 0 False) (idle\<lparr>flags := 4\<rparr>) = Inr s''"
    and y: "flags s'' AND BOOSTPULSE_ACTIVE = 0"
    by blast
  from x y have x': "map_sum id (\<lambda>s'. flags s' AND BOOSTPULSE_ACTIVE)
        (exec mako (Run hotplug_decision_work 0 False) (idle\<lparr>flags := 4\<rparr>)) = Inr 0"
    by simp
  from h1 h2 h3 h4 h5 e n r' f x' show ?thesis by simp
qed

subsection \<open>Disabling the hotplug driver\<close>

text \<open>The two parts of the decision step, one after the other, are the decision step.\<close>

lemma sample_load_keeps:
  assumes "sample_load nr ok s0 = Inr (avg, s)"
  shows "cpu_online s = cpu_online s0" "min_sampling_rate s = min_sampling_rate s0"
    "disable_load_threshold s = disable_load_threshold s0"
    "enable_load_threshold s = enable_load_threshold s0"
    "pending s = pending s0" "flags s = flags s0"
  using assms
  by (auto simp: sample_load_def resize_history_def Let_def split: if_splits sum.splits)

lemma queue_keeps:
  "min_sampling_rate (schedule_delayed_work w d s) = min_sampling_rate s"
  "num_online_cpus (schedule_delayed_work w d s) = num_online_cpus s"
  "num_online_cpus (s\<lparr>flags := f\<rparr>) = num_online_cpus s"
  by (simp_all add: schedule_delayed_work_def num_online_cpus_def)

lemma decision_split:
  "hotplug_decision_work_fn p nr ok s0 =
     (case decision_upto_test p nr ok s0 of
        Inl e \<Rightarrow> Inl e
      | Inr (l, s) \<Rightarrow> Inr (decision_from_test p l s))"
proof (cases "sample_load nr ok s0")
  case (Inl e)
  then show ?thesis by (simp add: hotplug_decision_work_fn_def decision_upto_test_def)
next
  case (Inr a)
  then obtain avg s where a: "sample_load nr ok s0 = Inr (avg, s)" by (cases a) simp
  note k = sample_load_keeps [OF a]
  from k have n: "num_online_cpus s0 = num_online_cpus s" "CPUS_AVAILABLE s0 = CPUS_AVAILABLE s"
    by (simp_all add: num_online_cpus_def CPUS_AVAILABLE_def)
  from k have m: "min_sampling_rate s0 = min_sampling_rate s"
    "disable_load_threshold s0 = disable_load_threshold s"
    "enable_load_threshold s0 = enable_load_threshold s" by simp_all
  show ?thesis
    using a
    by (simp add: hotplug_decision_work_fn_def decision_upto_test_def decision_from_test_def
        decide_def rearm_def Let_def queue_keeps n m)
qed

text \<open>The steps of the call, with nothing in between, are \<^verbatim>\<open>hotplug_disable(true)\<close>.\<close>

lemma disable_steps:
  assumes "disable_at c = Not_called" and "deciding c = None"
  shows "map_option (map_sum id driver)
           (steps p (if flags (driver c) AND HOTPLUG_DISABLED \<noteq> 0 then [Disable_step]
                     else [Disable_step, Disable_step, Disable_step, Disable_step]) c)
         = Some (Inr (hotplug_disable True (driver c)))"
  using assms by (simp add: hotplug_disable_def settle_def Let_def)















subsection \<open>Writes to the tunables\<close>

lemma uint_of_nat_small: "len < 2 ^ 31 \<Longrightarrow> uint (of_nat len :: u32) = int len"
  by (simp add: uint_nat unat_of_nat)

lemma int_lt: "(len::nat) < 2 ^ 31 \<Longrightarrow> int len < 2 ^ 31"
  by (metis of_nat_less_iff of_nat_numeral of_nat_power)

lemma neg_mod: "- (2 ^ 31) \<le> n \<Longrightarrow> n < 0 \<Longrightarrow> n mod 2 ^ 32 = n + 2 ^ 32" for n :: int
proof -
  assume a: "- (2 ^ 31) \<le> n" "n < 0"
  have "(n + 2 ^ 32) mod 2 ^ 32 = n + 2 ^ 32"
    using a by (intro mod_pos_pos_trivial) simp_all
  then show ?thesis by simp
qed

lemma pos_mod: "0 \<le> n \<Longrightarrow> n < 2 ^ 31 \<Longrightarrow> n mod 2 ^ 32 = n" for n :: int
  by (intro mod_pos_pos_trivial) simp_all


lemma outside_cpus:
  assumes "fits_long n" and "n < 1 \<or> int (length (cpu_online s)) < n"
    and "length (cpu_online s) < 2 ^ 31"
  shows "(word_of_int n :: u32) < 1 \<or> CPUS_AVAILABLE s < word_of_int n"
proof -
  have c: "uint (CPUS_AVAILABLE s) = int (length (cpu_online s))"
    using assms(3) by (simp add: CPUS_AVAILABLE_def uint_of_nat_small)
  have c': "int (length (cpu_online s)) < 2 ^ 31" using assms(3) by (rule int_lt)
  have n: "uint (word_of_int n :: u32) = n mod 2 ^ 32" by (simp add: uint_word_of_int)
  from assms(1) have r: "- (2 ^ 31) \<le> n" "n < 2 ^ 31" by (simp_all add: fits_long_def)
  consider "n = 0" | "n < 0" | "int (length (cpu_online s)) < n" using assms(2) by linarith
  then show ?thesis
  proof cases
    case 1
    then show ?thesis by simp
  next
    case 2
    with r have "uint (word_of_int n :: u32) = n + 2 ^ 32"
      by (simp only: n neg_mod)
    with r c c' have "uint (CPUS_AVAILABLE s) < uint (word_of_int n :: u32)" by simp
    then show ?thesis by (simp only: word_less_def simp_thms)
  next
    case 3
    then have "0 \<le> n" by linarith
    with r have "uint (word_of_int n :: u32) = n" by (simp only: n pos_mod)
    with 3 c have "uint (CPUS_AVAILABLE s) < uint (word_of_int n :: u32)" by linarith
    then show ?thesis by (simp only: word_less_def simp_thms)
  qed
qed

lemma range_checked_rejects:
  "n < lo \<or> hi < n \<Longrightarrow> \<exists>e. range_checked lo hi num0 (Number n) = Inl e"
  by (auto simp: range_checked_def)

lemma range_checked_rejects_text:
  "range_checked lo hi num0 Null = Inl EINVAL" "range_checked lo hi num0 Garbage = Inl EINVAL"
  by (simp_all add: range_checked_def)

text \<open>
  C9. The claim: a write outside a tunable's documented range is rejected with a
  validation failure and the prior value is kept, for every tunable, the two core counts
  included, and no write is clamped. \<^verbatim>\<open>min_online_cpus_set\<close> and
  \<^verbatim>\<open>max_online_cpus_set\<close> do otherwise: with four possible cores, writing 7 over a
  minimum of 2 returns 0 and leaves 1, and writing 9 over a maximum of 3 returns 0 and
  leaves 4.
\<close>

theorem online_cpus_write_replaces_value:
  "write_tunable Min_online_cpus 0 (Number 2) booted = (None, booted\<lparr>min_online_cpus := 2\<rparr>)
   \<and> write_tunable Min_online_cpus 0 (Number 7) (booted\<lparr>min_online_cpus := 2\<rparr>)
       = (None, booted\<lparr>min_online_cpus := 1\<rparr>)
   \<and> write_tunable Max_online_cpus 0 (Number 3) booted = (None, booted\<lparr>max_online_cpus := 3\<rparr>)
   \<and> write_tunable Max_online_cpus 0 (Number 9) (booted\<lparr>max_online_cpus := 3\<rparr>)
       = (None, booted\<lparr>max_online_cpus := 4\<rparr>)"
  by (simp add: write_tunable_def min_online_cpus_set_def max_online_cpus_set_def fits_long_def
      CPUS_AVAILABLE_def booted_eq)

text \<open>
  C9, as amended. A number outside the documented range, written to one of the five
  range-checked tunables (the three load thresholds, the sampling rate, the sampling
  periods), is rejected with an error and the state is as before. Written to
  \<^verbatim>\<open>min_online_cpus\<close> or \<^verbatim>\<open>max_online_cpus\<close>, a number outside 1 .. #CPUs that fits
  an \<^verbatim>\<open>int\<close> is accepted (the setter returns 0) and the tunable becomes its default,
  1 or the number of possible CPUs.
\<close>

theorem out_of_range_writes:
  assumes "documented_range t s = (lo, hi)" and "n < lo \<or> hi < n"
    and "length (cpu_online s) < 2 ^ 31"
  shows "case t of
           Min_online_cpus \<Rightarrow>
             fits_long n \<longrightarrow>
               write_tunable t num0 (Number n) s = (None, s\<lparr>min_online_cpus := 1\<rparr>)
         | Max_online_cpus \<Rightarrow>
             fits_long n \<longrightarrow>
               write_tunable t num0 (Number n) s
                 = (None, s\<lparr>max_online_cpus := CPUS_AVAILABLE s\<rparr>)
         | _ \<Rightarrow>
             fst (write_tunable t num0 (Number n) s) \<noteq> None
             \<and> snd (write_tunable t num0 (Number n) s) = s"
proof (cases t)
  case Enable_all_load_threshold
  with assms range_checked_rejects [of n 270 550 num0] show ?thesis
    by (auto simp: documented_range_def write_tunable_def set_enable_all_load_threshold_def)
next
  case Enable_load_threshold
  with assms range_checked_rejects [of n 130 250 num0] show ?thesis
    by (auto simp: documented_range_def write_tunable_def set_enable_load_threshold_def)
next
  case Disable_load_threshold
  with assms range_checked_rejects [of n 40 125 num0] show ?thesis
    by (auto simp: documented_range_def write_tunable_def set_disable_load_threshold_def)
next
  case Min_sampling_rate
  with assms range_checked_rejects [of n 10 50 num0] show ?thesis
    by (auto simp: documented_range_def write_tunable_def set_min_sampling_rate_def)
next
  case Sampling_periods
  with assms range_checked_rejects [of n 5 50 num0] show ?thesis
    by (auto simp: documented_range_def write_tunable_def set_sampling_periods_def)
next
  case Min_online_cpus
  show ?thesis
  proof (cases "fits_long n")
    case True
    from assms Min_online_cpus have "n < 1 \<or> int (length (cpu_online s)) < n"
      by (simp add: documented_range_def)
    from outside_cpus [OF True this assms(3)] True Min_online_cpus show ?thesis
      by (simp add: write_tunable_def min_online_cpus_set_def CPUS_AVAILABLE_def)
  next
    case False
    with Min_online_cpus show ?thesis by simp
  qed
next
  case Max_online_cpus
  show ?thesis
  proof (cases "fits_long n")
    case True
    from assms Max_online_cpus have "n < 1 \<or> int (length (cpu_online s)) < n"
      by (simp add: documented_range_def)
    from outside_cpus [OF True this assms(3)] True Max_online_cpus show ?thesis
      by (simp add: write_tunable_def max_online_cpus_set_def CPUS_AVAILABLE_def)
  next
    case False
    with Max_online_cpus show ?thesis by simp
  qed
qed

theorem out_of_range_writes_witness:
  "documented_range Sampling_periods booted = (5, 50)
   \<and> documented_range Min_online_cpus booted = (1, 4)
   \<and> length (cpu_online booted) < 2 ^ 31
   \<and> write_tunable Sampling_periods 0 (Number 51) booted = (Some EINVAL, booted)
   \<and> fits_long 7
   \<and> write_tunable Min_online_cpus 0 (Number 7) booted = (None, booted\<lparr>min_online_cpus := 1\<rparr>)"
proof -
  have d1: "documented_range Sampling_periods booted = (5, 50)"
    and d2: "documented_range Min_online_cpus booted = (1, 4)"
    and l: "length (cpu_online booted) < 2 ^ 31"
    and f: "fits_long 7"
    by (simp_all add: documented_range_def booted_eq fits_long_def)
  have o1: "(51::int) < 5 \<or> (50::int) < 51" and o2: "(7::int) < 1 \<or> (4::int) < 7"
    by simp_all
  from out_of_range_writes [OF d1 o1 l, of 0]
  have w1: "fst (write_tunable Sampling_periods 0 (Number 51) booted) \<noteq> None"
    and w2: "snd (write_tunable Sampling_periods 0 (Number 51) booted) = booted"
    by simp_all
  have "fst (write_tunable Sampling_periods 0 (Number 51) booted) = Some EINVAL"
    by (simp add: write_tunable_def set_sampling_periods_def range_checked_def fits_long_def)
  with w2 have w: "write_tunable Sampling_periods 0 (Number 51) booted = (Some EINVAL, booted)"
    by (simp add: prod_eq_iff)
  from out_of_range_writes [OF d2 o2 l, of 0] f
  have m: "write_tunable Min_online_cpus 0 (Number 7) booted = (None, booted\<lparr>min_online_cpus := 1\<rparr>)"
    by simp
  from d1 d2 l w f m show ?thesis by simp
qed

text \<open>The thermal setters reject a number outside their bounds in the same way.\<close>

lemma thermal_setters_reject:
  "n < 40 \<or> 74 < n \<Longrightarrow>
     fst (set_throttle_temp num0 (Number n) s) \<noteq> None
     \<and> snd (set_throttle_temp num0 (Number n) s) = s"
  "n < 45 \<or> 80 < n \<Longrightarrow>
     fst (set_throttle_temp_A num0 (Number n) s) \<noteq> None
     \<and> snd (set_throttle_temp_A num0 (Number n) s) = s"
  "n < 4 \<or> 8 < n \<Longrightarrow>
     fst (set_min_freq_index num0 (Number n) a) \<noteq> None
     \<and> snd (set_min_freq_index num0 (Number n) a) = a"
  using range_checked_rejects [of n 40 74 num0] range_checked_rejects [of n 45 80 num0]
    range_checked_rejects [of n 4 8 num0]
  by (auto simp: set_throttle_temp_def set_throttle_temp_A_def set_min_freq_index_def
      COOL_TEMP_def COOL_TEMP_A_def MAX_THROTTLE_TEMP_def MAX_THROTTLE_TEMP_A_def)

subsection \<open>The thermal driver: what a run keeps\<close>

lemma fold_update_inv:
  assumes "\<And>c t. g (update_cpu_max_freq e c f t) = g t"
  shows "g (fold (\<lambda>cpu t. update_cpu_max_freq e cpu f t) cs s) = g s"
  using assms by (induction cs arbitrary: s) simp_all

lemma setmaxfreq_keeps:
  "enabled (setmaxfreq p e f s) = enabled s"
  "limit_idx (setmaxfreq p e f s) = limit_idx s"
  "limit_idx_high (setmaxfreq p e f s) = limit_idx_high s"
  "table (setmaxfreq p e f s) = table s"
  "limit_init (setmaxfreq p e f s) = limit_init s"
  "check_temp_work (setmaxfreq p e f s) = check_temp_work s"
  "throttle_temp (setmaxfreq p e f s) = throttle_temp s"
  "freq_step (setmaxfreq p e f s) = freq_step s"
  "temp_hysteresis_degC (setmaxfreq p e f s) = temp_hysteresis_degC s"
  "poll_ms (setmaxfreq p e f s) = poll_ms s"
  "thermal.more (setmaxfreq p e f s) = thermal.more s"
  unfolding setmaxfreq_def
  by (rule fold_update_inv, simp add: update_cpu_max_freq_def)+

lemma setmaxfreq_keeps_B:
  "limit_idx_low (setmaxfreq p e f s) = limit_idx_low s"
  "poweroff_calls (setmaxfreq p e f s) = poweroff_calls s"
  unfolding setmaxfreq_def
  by (rule fold_update_inv, simp add: update_cpu_max_freq_def)+


lemma reschedule_keeps:
  "enabled (reschedule p c temp n s) = enabled s"
  "limit_idx (reschedule p c temp n s) = limit_idx s"
  "limit_idx_high (reschedule p c temp n s) = limit_idx_high s"
  "table (reschedule p c temp n s) = table s"
  "limit_init (reschedule p c temp n s) = limit_init s"
  "freq_limits (reschedule p c temp n s) = freq_limits s"
  "limited_max_freq (reschedule p c temp n s) = limited_max_freq s"
  "throttle_temp (reschedule p c temp n s) = throttle_temp s"
  "freq_step (reschedule p c temp n s) = freq_step s"
  "temp_hysteresis_degC (reschedule p c temp n s) = temp_hysteresis_degC s"
  "thermal.more (reschedule p c temp n s) = thermal.more s"
  by (simp_all add: reschedule_def schedule_check_temp_def)

lemma reschedule_keeps_B:
  "limit_idx_low (reschedule p c temp n s) = limit_idx_low s"
  "poweroff_calls (reschedule p c temp n s) = poweroff_calls s"
  by (simp_all add: reschedule_def schedule_check_temp_def)

lemma reschedule_disabled: "\<not> enabled s \<Longrightarrow> reschedule p c temp n s = s"
  by (simp add: reschedule_def)

lemma shutdown_band:
  assumes "SHUTDOWN_TEMP \<le> temp" and "table s = Some t"
    and "0 \<le> sint (limit_idx s)" and "sint (limit_idx s) < int (length t)"
  shows "limit_bands p e temp s =
     Inr (setmaxfreq p e (t ! nat (sint (limit_idx s)))
            (s\<lparr>poweroff_calls := poweroff_calls s + 1, enabled := False\<rparr>))"
  using assms
  by (simp add: limit_bands_def table_at_def Let_def reschedule_disabled setmaxfreq_keeps)


lemma thermal_evals:
  "tsens_get_temp (reading temp tbl) = Inr temp"
  "cpufreq_frequency_get_table (reading temp tbl) = tbl"
  "msm_cpufreq_set_freq_limits (reading temp tbl) = (\<lambda>cpu. True)"
  "nr_possible_cpus mako = 4"
  "MSM_CPUFREQ_NO_LIMIT mako = 4294967295"
  "CPUFREQ_TABLE_END mako = 4294967294"
  "msecs_to_jiffies mako = (\<lambda>m. (m + 9) div 10)"
  by (simp_all add: reading_def mako_def)

lemmas thermal_defs =
  check_temp_def lazy_freq_table_def limit_bands_def step_limit_def
  msm_thermal_get_freq_table_def table_at_def setmaxfreq_def update_cpu_max_freq_def
  reschedule_def schedule_check_temp_def SHUTDOWN_TEMP_def COOL_TEMP_def table_end.simps
  HOT_TEMP_OFFSET_MS_def COOL_TEMP_OFFSET_MS_def word_sless_alt word_sle_eq upt_rec Let_def

subsection \<open>The shutdown band\<close>

text \<open>What one part of a run, and one event, does to the count of power-off calls and to
  the queue.\<close>

lemma check_temp_split:
  "check_temp p e s =
     (case check_temp_body p e s of
        Inl f \<Rightarrow> Inl f
      | Inr (temp, near_limit, s1) \<Rightarrow> Inr (reschedule p COOL_TEMP temp near_limit s1))"
  by (simp add: check_temp_def check_temp_body_def limit_bands_def Let_def
      split: sum.splits option.splits prod.splits)

lemma step_limit_counts:
  "step_limit p temp s = Inr (Some (f, s1))
   \<Longrightarrow> poweroff_calls s1 = poweroff_calls s \<and> check_temp_work s1 = check_temp_work s"
  by (auto simp: step_limit_def Let_def split: if_splits sum.splits)

lemma lazy_counts:
  "lazy_freq_table p e s = Inr (r, s1)
   \<Longrightarrow> poweroff_calls s1 = poweroff_calls s \<and> check_temp_work s1 = check_temp_work s"
  by (auto simp: lazy_freq_table_def msm_thermal_get_freq_table_def Let_def
      split: if_splits sum.splits option.splits prod.splits)

lemma body_counts:
  assumes "check_temp_body p e s = Inr (temp, near_limit, s1)"
  shows "check_temp_work s1 = check_temp_work s
    \<and> (poweroff_calls s1 = poweroff_calls s
       \<or> hot e \<and> poweroff_calls s1 = poweroff_calls s + 1 \<and> \<not> enabled s1)"
proof (cases "tsens_get_temp e")
  case (Inl err)
  with assms show ?thesis by (simp add: check_temp_body_def)
next
  case (Inr t)
  with assms obtain r s2 where l: "lazy_freq_table p e s = Inr (r, s2)"
    by (auto simp: check_temp_body_def split: sum.splits)
  from lazy_counts [OF l] have k: "poweroff_calls s2 = poweroff_calls s"
    "check_temp_work s2 = check_temp_work s" by simp_all
  show ?thesis
  proof (cases r)
    case (Some err)
    with assms Inr l k show ?thesis by (simp add: check_temp_body_def)
  next
    case None
    show ?thesis
    proof (cases "SHUTDOWN_TEMP \<le> t")
      case True
      with assms Inr l None k show ?thesis
        by (auto simp: check_temp_body_def Let_def hot_def setmaxfreq_keeps setmaxfreq_keeps_B
            split: sum.splits)
    next
      case False
      with assms Inr l None obtain q where q: "step_limit p t s2 = Inr q"
        by (auto simp: check_temp_body_def Let_def split: sum.splits)
      show ?thesis
      proof (cases q)
        case None
        with assms Inr l \<open>r = None\<close> False q k show ?thesis
          by (simp add: check_temp_body_def Let_def)
      next
        case (Some a)
        then obtain f s3 where a: "q = Some (f, s3)" by (cases a) simp
        from step_limit_counts q a have "poweroff_calls s3 = poweroff_calls s2"
          "check_temp_work s3 = check_temp_work s2" by blast+
        with assms Inr l \<open>r = None\<close> False q a k show ?thesis
          by (auto simp: check_temp_body_def Let_def setmaxfreq_keeps setmaxfreq_keeps_B
              split: if_splits)
      qed
    qed
  qed
qed

lemma reschedule_queue:
  "check_temp_work s = None \<Longrightarrow> \<not> enabled s \<Longrightarrow> check_temp_work (reschedule p c temp n s) = None"
  by (simp add: reschedule_def)

lemma set_enabled_counts:
  "poweroff_calls (set_enabled p e val s) = poweroff_calls s"
  "check_temp_work s = None \<Longrightarrow> check_temp_work (set_enabled p e val s) = None"
  by (simp_all add: set_enabled_def disable_msm_thermal_def Let_def setmaxfreq_keeps
      setmaxfreq_keeps_B split: option.splits)

lemma event_counts:
  assumes "thermal_event p ev s = Inr s1"
  shows "(check_temp_work s = None \<longrightarrow> check_temp_work s1 = None \<and> poweroff_calls s1 = poweroff_calls s)
    \<and> (poweroff_calls s1 = poweroff_calls s
       \<or> poweroff_calls s1 = poweroff_calls s + 1
          \<and> (check_temp_work s1 = None \<or> written_hot ev))"
proof (cases ev)
  case (Poll e)
  show ?thesis
  proof (cases "check_temp_work s = None")
    case True
    with assms Poll show ?thesis by simp
  next
    case False
    with assms Poll obtain temp n s2 where
      b: "check_temp_body p e (s\<lparr>check_temp_work := None\<rparr>) = Inr (temp, n, s2)"
      and r: "s1 = reschedule p COOL_TEMP temp n s2"
      by (auto simp: check_temp_split split: sum.splits)
    from body_counts [OF b] r False show ?thesis
      by (auto simp: reschedule_keeps_B reschedule_queue)
  qed
next
  case (Poll_written e)
  show ?thesis
  proof (cases "check_temp_work s = None")
    case True
    with assms Poll_written show ?thesis by simp
  next
    case False
    with assms Poll_written obtain temp n s2 where
      b: "check_temp_body p e (s\<lparr>check_temp_work := None\<rparr>) = Inr (temp, n, s2)"
      and r: "s1 = reschedule p COOL_TEMP temp n (s2\<lparr>enabled := True\<rparr>)"
      by (auto split: sum.splits)
    from body_counts [OF b] r False Poll_written show ?thesis
      by (auto simp: reschedule_keeps_B)
  qed
next
  case (Set_enabled val e)
  with assms show ?thesis by (auto simp: set_enabled_counts)
qed

lemma events_bound:
  "thermal_events p evs s = Inr s'
   \<Longrightarrow> poweroff_calls s' \<le> poweroff_calls s + (if check_temp_work s = None then 0 else 1)
         + length (filter written_hot evs)"
proof (induction evs arbitrary: s)
  case Nil
  then show ?case by simp
next
  case (Cons ev evs)
  from Cons.prems obtain s1 where
    e: "thermal_event p ev s = Inr s1" and r: "thermal_events p evs s1 = Inr s'"
    by (auto split: sum.splits)
  from Cons.IH [OF r] event_counts [OF e] show ?case
    by (auto split: if_splits)
qed

text \<open>
  C4. The claim: the power-off action is invoked at most once in total, however the
  sampling step is invoked at or above the shutdown temperature. The code keeps no
  record that \<^verbatim>\<open>orderly_poweroff\<close> was called, and the mutex around the call only
  orders callers. What keeps the total at one is that a run in the shutdown band clears
  \<^verbatim>\<open>enabled\<close> (line 140) and that the work is queued again only under
  \<^verbatim>\<open>if (enabled)\<close> (line 189); and \<^verbatim>\<open>enabled\<close> is a module parameter. From the driver
  as \<^verbatim>\<open>msm_thermal_init\<close> leaves it: a first run at 50 degrees resolves the table; a run
  at 85 degrees calls \<^verbatim>\<open>orderly_poweroff\<close> and clears \<^verbatim>\<open>enabled\<close>, a write of 1 to the
  parameter lands before that run reaches line 189, and the run queues the work again;
  the next run at 85 degrees calls \<^verbatim>\<open>orderly_poweroff\<close> a second time. With the same
  write made after the run has ended, the work is not queued and the total stays at one.
\<close>

theorem write_inside_hot_run_powers_off_twice:
  "map_sum id (\<lambda>s. (poweroff_calls s, check_temp_work s))
     (thermal_events mako
        [Poll (reading 50 (Some freqs)), Poll_written (reading 85 (Some freqs))]
        (msm_thermal_init mako 1000 4 1)) = Inr (1, Some 100)
   \<and> map_sum id poweroff_calls
     (thermal_events mako
        [Poll (reading 50 (Some freqs)), Poll_written (reading 85 (Some freqs)),
         Poll (reading 85 (Some freqs))]
        (msm_thermal_init mako 1000 4 1)) = Inr 2
   \<and> map_sum id (\<lambda>s. (poweroff_calls s, check_temp_work s))
     (thermal_events mako
        [Poll (reading 50 (Some freqs)), Poll (reading 85 (Some freqs)),
         Set_enabled (Some True) (reading 85 (Some freqs)), Poll (reading 85 (Some freqs))]
        (msm_thermal_init mako 1000 4 1)) = Inr (1, None)"
  by (simp add: msm_thermal_init_def check_temp_body_def set_enabled_def freqs_def
      thermal_evals thermal_defs)

text \<open>
  C4, as amended. Over every sequence of runs of the sampling step from its queue and of
  writes to \<^verbatim>\<open>enabled\<close>, the power-off action is invoked at most once in total, and at
  most once more for each write of 1 to \<^verbatim>\<open>enabled\<close> that lands inside a run in the
  shutdown band, between the run's clearing of \<^verbatim>\<open>enabled\<close> and its test of it.
\<close>

theorem poweroff_once_but_for_writes_inside_hot_runs:
  assumes "thermal_events p evs s = Inr s'"
  shows "poweroff_calls s' \<le> poweroff_calls s + 1 + length (filter written_hot evs)"
  using events_bound [OF assms] by (simp split: if_splits)

theorem poweroff_once_but_for_writes_inside_hot_runs_witness:
  "map_sum id poweroff_calls
     (thermal_events mako
        [Poll (reading 50 (Some freqs)), Poll (reading 85 (Some freqs)),
         Set_enabled (Some True) (reading 90 (Some freqs)), Poll (reading 90 (Some freqs)),
         Set_enabled (Some False) (reading 90 (Some freqs)), Poll (reading 90 (Some freqs))]
        (msm_thermal_init mako 1000 4 1)) = Inr 1
   \<and> filter written_hot
        [Poll (reading 50 (Some freqs)), Poll (reading 85 (Some freqs)),
         Set_enabled (Some True) (reading 90 (Some freqs)), Poll (reading 90 (Some freqs)),
         Set_enabled (Some False) (reading 90 (Some freqs)), Poll (reading 90 (Some freqs))]
      = []"
proof -
  let ?evs = "[Poll (reading 50 (Some freqs)), Poll (reading 85 (Some freqs)),
         Set_enabled (Some True) (reading 90 (Some freqs)), Poll (reading 90 (Some freqs)),
         Set_enabled (Some False) (reading 90 (Some freqs)), Poll (reading 90 (Some freqs))]"
  have "\<exists>s'. thermal_events mako ?evs (msm_thermal_init mako 1000 4 1) = Inr s'
      \<and> 1 \<le> poweroff_calls s'"
    by (simp add: msm_thermal_init_def check_temp_body_def set_enabled_def
        disable_msm_thermal_def freqs_def thermal_evals thermal_defs)
  then obtain s' where r: "thermal_events mako ?evs (msm_thermal_init mako 1000 4 1) = Inr s'"
    and l: "1 \<le> poweroff_calls s'"
    by blast
  have w: "filter written_hot ?evs = []" by simp
  have z: "poweroff_calls (msm_thermal_init mako 1000 4 1) = 0"
    by (simp add: msm_thermal_init_def schedule_check_temp_def)
  from poweroff_once_but_for_writes_inside_hot_runs [OF r] w z
  have "poweroff_calls s' \<le> 1" by simp
  with l have "poweroff_calls s' = 1" by simp
  with r w show ?thesis by simp
qed




subsection \<open>The lazy table read\<close>

lemma step_limit_keeps:
  "step_limit p temp s = Inr (Some (f, s1)) \<Longrightarrow> limit_init s1 = limit_init s \<and> table s1 = table s"
  by (auto simp: step_limit_def Let_def split: if_splits sum.splits)

lemma limit_bands_keeps:
  assumes "limit_bands p e temp s = Inr s'"
  shows "limit_init s' = limit_init s \<and> table s' = table s"
proof (cases "SHUTDOWN_TEMP \<le> temp")
  case True
  with assms show ?thesis
    by (auto simp: limit_bands_def Let_def reschedule_keeps setmaxfreq_keeps split: sum.splits)
next
  case False
  with assms obtain r where r: "step_limit p temp s = Inr r"
    by (auto simp: limit_bands_def Let_def split: sum.splits)
  show ?thesis
  proof (cases r)
    case None
    with assms False r show ?thesis
      by (auto simp: limit_bands_def Let_def reschedule_keeps)
  next
    case (Some a)
    then obtain f s1 where a: "r = Some (f, s1)" by (cases a) simp
    from step_limit_keeps r a have "limit_init s1 = limit_init s \<and> table s1 = table s" by blast
    with assms False r a show ?thesis
      by (auto simp: limit_bands_def Let_def reschedule_keeps setmaxfreq_keeps split: if_splits)
  qed
qed

lemma get_table_resolves:
  assumes "cpufreq_frequency_get_table e = Some t"
    and "msm_thermal_get_freq_table p e s = Inr (r, s1)"
  shows "r = None \<and> table s1 = Some t"
proof (cases "table_end (CPUFREQ_TABLE_END p) t 0")
  case (Inl f)
  with assms show ?thesis by (simp add: msm_thermal_get_freq_table_def)
next
  case (Inr i)
  with assms show ?thesis
    by (auto simp: msm_thermal_get_freq_table_def Let_def split: if_splits)
qed

lemma lazy_resolves:
  assumes "\<not> limit_init s" and "cpufreq_frequency_get_table e = Some t"
    and "lazy_freq_table p e s = Inr (r, s1)"
  shows "r = None \<and> limit_init s1 \<and> table s1 = Some t"
proof (cases "msm_thermal_get_freq_table p e s")
  case (Inl f)
  with assms show ?thesis by (simp add: lazy_freq_table_def)
next
  case (Inr a)
  then obtain r0 s0 where a: "msm_thermal_get_freq_table p e s = Inr (r0, s0)"
    by (cases a) simp
  from get_table_resolves [OF assms(2) a] have "r0 = None" "table s0 = Some t" by simp_all
  with assms a show ?thesis by (auto simp: lazy_freq_table_def)
qed

text \<open>
  C6. The claim: when the table cannot be resolved at first use, limiting is off for the
  rest of the boot: no retry, no ceiling ever applied. The code sets \<^verbatim>\<open>limit_init\<close>
  only after a successful read, so every later run reads the table again: a run at 70
  degrees without a table changes nothing, and the next run at 70 degrees with a table
  resolves it, steps the index down to 3 and limits every core to 1242000.
\<close>

theorem table_resolved_on_second_run:
  "map_sum id (\<lambda>s. (limit_init s, freq_limits s))
     (check_temps mako [reading 70 None] probed) = Inr (False, [])
   \<and> map_sum id (\<lambda>s. (limit_init s, limit_idx s, limited_max_freq s, freq_limits s))
     (check_temps mako [reading 70 None, reading 70 (Some freqs)] probed)
     = Inr (True, 3, 1242000, [(0, 1242000), (1, 1242000), (2, 1242000), (3, 1242000)])"
  by (simp add: probed_def freqs_def thermal_evals thermal_defs)

text \<open>
  C6, as amended. A run of \<^verbatim>\<open>check_temp\<close> that reads the sensor and finds no table
  applies no ceiling and leaves \<^verbatim>\<open>limit_init\<close> clear, the applied limit and the index
  as they were; the table is read again on the next run, and a next run that finds a
  table and returns has resolved it.
\<close>

theorem unresolved_table_is_retried:
  assumes "tsens_get_temp e = Inr temp" and "\<not> limit_init s"
    and "cpufreq_frequency_get_table e = None"
  shows "\<exists>s'. check_temp p e s = Inr s'
    \<and> \<not> limit_init s' \<and> freq_limits s' = freq_limits s
    \<and> limited_max_freq s' = limited_max_freq s \<and> limit_idx s' = limit_idx s
    \<and> (\<forall>e' temp' t s''.
          tsens_get_temp e' = Inr temp' \<and> cpufreq_frequency_get_table e' = Some t
            \<and> check_temp p e' s' = Inr s''
          \<longrightarrow> limit_init s'' \<and> table s'' = Some t)"
proof -
  let ?s' = "reschedule p COOL_TEMP temp False (s\<lparr>table := None\<rparr>)"
  from assms have c: "check_temp p e s = Inr ?s'"
    by (simp add: check_temp_def lazy_freq_table_def msm_thermal_get_freq_table_def)
  from assms(2) have n: "\<not> limit_init ?s'" by (simp add: reschedule_keeps)
  have retry: "limit_init s'' \<and> table s'' = Some t"
    if "tsens_get_temp e' = Inr temp'" and "cpufreq_frequency_get_table e' = Some t"
      and "check_temp p e' ?s' = Inr s''" for e' temp' t s''
  proof -
    from that(1,3) obtain r s1 where l: "lazy_freq_table p e' ?s' = Inr (r, s1)"
      by (auto simp: check_temp_def split: sum.splits)
    from lazy_resolves [OF n that(2) l] have r: "r = None" "limit_init s1" "table s1 = Some t"
      by simp_all
    from that(1,3) l r have "limit_bands p e' temp' s1 = Inr s''"
      by (simp add: check_temp_def)
    from limit_bands_keeps [OF this] r show ?thesis by simp
  qed
  from c n retry show ?thesis by (auto simp: reschedule_keeps)
qed

theorem unresolved_table_is_retried_witness:
  "tsens_get_temp (reading 70 None) = Inr 70 \<and> \<not> limit_init probed
   \<and> cpufreq_frequency_get_table (reading 70 None) = None
   \<and> tsens_get_temp (reading 70 (Some freqs)) = Inr 70
   \<and> cpufreq_frequency_get_table (reading 70 (Some freqs)) = Some freqs
   \<and> map_sum id limit_init (check_temp mako (reading 70 None) probed) = Inr False
   \<and> map_sum id (\<lambda>s. (limit_init s, table s))
       (check_temps mako [reading 70 None, reading 70 (Some freqs)] probed)
       = Inr (True, Some freqs)"
proof -
  have h: "tsens_get_temp (reading 70 None) = Inr 70" "\<not> limit_init probed"
    "cpufreq_frequency_get_table (reading 70 None) = None"
    and h': "tsens_get_temp (reading 70 (Some freqs)) = Inr 70"
    "cpufreq_frequency_get_table (reading 70 (Some freqs)) = Some freqs"
    by (simp_all add: thermal_evals probed_def)
  from unresolved_table_is_retried [OF h, of mako] obtain s' where
    c: "check_temp mako (reading 70 None) probed = Inr s'" and n: "\<not> limit_init s'"
    and r: "\<And>e' temp' t s''. tsens_get_temp e' = Inr temp'
          \<Longrightarrow> cpufreq_frequency_get_table e' = Some t
          \<Longrightarrow> check_temp mako e' s' = Inr s'' \<Longrightarrow> limit_init s'' \<and> table s'' = Some t"
    by blast
  have "\<exists>s''. check_temps mako [reading 70 None, reading 70 (Some freqs)] probed = Inr s''"
    by (simp add: probed_def freqs_def thermal_evals thermal_defs)
  then obtain s'' where
    s'': "check_temps mako [reading 70 None, reading 70 (Some freqs)] probed = Inr s''"
    by blast
  with c have "check_temp mako (reading 70 (Some freqs)) s' = Inr s''"
    by (simp split: sum.splits)
  from r [OF h' this] s'' have
    "map_sum id (\<lambda>s. (limit_init s, table s))
       (check_temps mako [reading 70 None, reading 70 (Some freqs)] probed)
       = Inr (True, Some freqs)"
    by simp
  moreover from c n have "map_sum id limit_init (check_temp mako (reading 70 None) probed) = Inr False"
    by simp
  ultimately show ?thesis using h h' by simp
qed

subsection \<open>The range of the index\<close>

lemma uint_minus_one: "uint (- 1 :: u32) = 4294967295"
  by (simp add: uint_word_ariths)

lemmas thermal_A_defs = uint_minus_one
  check_temp_A_def apply_limit_A_def msm_thermal_get_freq_table_A_def
  MAX_THROTTLE_TEMP_A_def COOL_TEMP_A_def DEFAULT_MIN_FREQ_INDEX_def

text \<open>
  C7. The claim: for every sequence of readings and every configured frequency step the
  index stays within the range set at the first table read, in both versions. The
  clamps of the code compare after a subtraction that wraps. In the version of
  \<^verbatim>\<open>auto_hotplug.c\<close> the index is unsigned: with twelve frequencies (top index 11, lowest
  allowed index 7) and a step of 12, a reading of 72 at a throttle temperature of 70
  computes 11 - 12 = 4294967295, which is not below 7, and reads the table there. In
  \<^verbatim>\<open>msm_thermal.c\<close> the index is signed: with a step of 4294967295 the subtraction adds
  one, and a reading of 65 moves the index from the top index 4 to 5, the end marker.
  The first conjunct shows that the first state is what the table read produces.
  For steps that do not wrap the range is kept (\<open>check_temps_keep_range\<close> below).
\<close>

theorem index_leaves_range:
  "msm_thermal_get_freq_table_A mako (reading 72 (Some freqs_A))
       (resolved_A\<lparr>limit_init := False, table := None\<rparr>)
     = Inr (None, resolved_A\<lparr>limit_init := False\<rparr>)
   \<and> limit_idx resolved_A - freq_step resolved_A = 4294967295
   \<and> check_temp_A mako (reading 72 None) resolved_A = Inl OutOfBounds
   \<and> map_sum id (\<lambda>s. (limit_idx s, limit_idx_low s, limit_idx_high s))
       (check_temp mako (reading 65 None) (resolved\<lparr>freq_step := 4294967295\<rparr>))
       = Inr (5, 0, 4)"
  by (simp add: resolved_A_def freqs_A_def resolved_def freqs_def thermal_evals thermal_defs
      thermal_A_defs)

subsection \<open>Hysteresis\<close>

lemma sint_small: "uint w < 2 ^ 31 \<Longrightarrow> sint w = uint w" for w :: u32
proof -
  assume a: "uint w < 2 ^ 31"
  have u: "0 \<le> uint w" by simp
  from a u have "- (2 ^ 31) \<le> uint w" by linarith
  with a have "signed_take_bit 31 (uint w) = uint w"
    by (rule signed_take_bit_int_eq_self [rotated])
  then show ?thesis by (simp add: sint_uint)
qed

lemma sint_diff_small:
  fixes a b :: u32
  assumes "0 \<le> sint a" and "uint b < 2 ^ 31"
  shows "sint (a - b) = sint a - uint b"
proof -
  have b: "sint b = uint b" using assms(2) by (rule sint_small)
  have u: "0 \<le> uint b" by simp
  have lt: "sint a < 2 ^ 31" using sint_lt [of a] by simp
  from assms u have lo: "- (2 ^ 31) \<le> sint a - uint b" by linarith
  from lt u have hi: "sint a - uint b < 2 ^ 31" by linarith
  from lo hi have "signed_take_bit 31 (sint a - uint b) = sint a - uint b"
    by (rule signed_take_bit_int_eq_self)
  then show ?thesis by (simp add: sint_word_diff b)
qed

lemma sint_sum_small:
  fixes a b :: u32
  assumes "0 \<le> sint a" and "sint a + uint b < 2 ^ 31"
  shows "sint (a + b) = sint a + uint b"
proof -
  have u: "0 \<le> uint b" by simp
  with assms have "uint b < 2 ^ 31" by linarith
  then have b: "sint b = uint b" by (rule sint_small)
  from assms(1) u have "0 \<le> sint a + uint b" by linarith
  then have lo: "- (2 ^ 31) \<le> sint a + uint b" by simp
  from lo assms(2) have "signed_take_bit 31 (sint a + uint b) = sint a + uint b"
    by (rule signed_take_bit_int_eq_self)
  then show ?thesis by (simp add: sint_word_add b)
qed

lemma step_limit_index:
  assumes t: "table s = Some t" and low: "limit_idx_low s = 0"
    and i0: "0 \<le> sint (limit_idx s)" and ih: "sint (limit_idx s) \<le> sint (limit_idx_high s)"
    and hl: "sint (limit_idx_high s) < int (length t)"
    and st: "sint (limit_idx_high s) + uint (freq_step s) < 2 ^ 31"
  shows "\<exists>r. step_limit p temp s = Inr r
           \<and> sint (limit_idx (case r of None \<Rightarrow> s | Some (f, s1) \<Rightarrow> s1)) = next_index s temp"
proof -
  have u: "0 \<le> uint (freq_step s)" by simp
  from i0 ih st u have sb: "uint (freq_step s) < 2 ^ 31" by linarith
  have d: "sint (limit_idx s - freq_step s) = sint (limit_idx s) - uint (freq_step s)"
    using i0 sb by (rule sint_diff_small)
  from ih st have "sint (limit_idx s) + uint (freq_step s) < 2 ^ 31" by linarith
  with i0 have a: "sint (limit_idx s + freq_step s) = sint (limit_idx s) + uint (freq_step s)"
    by (rule sint_sum_small)
  from i0 ih hl have "0 < int (length t)" by linarith
  then have ne: "t \<noteq> []" by simp
  consider (throttle) "throttle_temp s \<le> temp"
    | (recover) "\<not> throttle_temp s \<le> temp" "temp < throttle_temp s - temp_hysteresis_degC s"
    | (hold) "\<not> throttle_temp s \<le> temp" "\<not> temp < throttle_temp s - temp_hysteresis_degC s"
    by blast
  then show ?thesis
  proof cases
    case throttle
    show ?thesis
    proof (cases "limit_idx s = limit_idx_low s")
      case True
      with throttle low u show ?thesis
        by (simp add: step_limit_def next_index_def)
    next
      case False
      show ?thesis
      proof (cases "sint (limit_idx s) - uint (freq_step s) < 0")
        case True
        with throttle False low d t hl i0 ih ne show ?thesis
          by (simp add: step_limit_def next_index_def word_sless_alt table_at_def Let_def)
      next
        case False
        from ih hl u have "sint (limit_idx s) - uint (freq_step s) < int (length t)"
          by linarith
        with False throttle \<open>limit_idx s \<noteq> limit_idx_low s\<close> low d t show ?thesis
          by (simp add: step_limit_def next_index_def word_sless_alt table_at_def Let_def)
      qed
    qed
  next
    case recover
    show ?thesis
    proof (cases "limit_idx s = limit_idx_high s")
      case True
      with recover u show ?thesis
        by (simp add: step_limit_def next_index_def)
    next
      case False
      show ?thesis
      proof (cases "sint (limit_idx_high s) \<le> sint (limit_idx s) + uint (freq_step s)")
        case True
        with recover False a show ?thesis
          by (simp add: step_limit_def next_index_def word_sle_eq Let_def)
      next
        case False
        from False hl have "sint (limit_idx s) + uint (freq_step s) < int (length t)"
          by linarith
        moreover from i0 u have "0 \<le> sint (limit_idx s) + uint (freq_step s)"
          by linarith
        ultimately show ?thesis
          using False recover \<open>limit_idx s \<noteq> limit_idx_high s\<close> a t
          by (simp add: step_limit_def next_index_def word_sle_eq table_at_def Let_def)
      qed
    qed
  next
    case hold
    then show ?thesis by (simp add: step_limit_def next_index_def)
  qed
qed

lemma bands_index:
  assumes "temp < SHUTDOWN_TEMP" and "table s = Some t" and "limit_idx_low s = 0"
    and "0 \<le> sint (limit_idx s)" and "sint (limit_idx s) \<le> sint (limit_idx_high s)"
    and "sint (limit_idx_high s) < int (length t)"
    and "sint (limit_idx_high s) + uint (freq_step s) < 2 ^ 31"
  shows "\<exists>s'. limit_bands p e temp s = Inr s' \<and> sint (limit_idx s') = next_index s temp"
proof -
  from step_limit_index [OF assms(2-7), of p temp] obtain r where
    r: "step_limit p temp s = Inr r"
    and i: "sint (limit_idx (case r of None \<Rightarrow> s | Some (f, s1) \<Rightarrow> s1)) = next_index s temp"
    by blast
  from assms(1) have ns: "\<not> SHUTDOWN_TEMP \<le> temp" by simp
  show ?thesis
  proof (cases r)
    case None
    with r i ns show ?thesis
      by (simp add: limit_bands_def reschedule_keeps)
  next
    case (Some a)
    then obtain f s1 where "r = Some (f, s1)" by (cases a) simp
    with r i ns show ?thesis
      by (simp add: limit_bands_def reschedule_keeps setmaxfreq_keeps Let_def)
  qed
qed

text \<open>
  C8. The claim: once throttling is active the index returns toward the top only after
  the temperature is below the throttle temperature minus the hysteresis, and over
  readings that alternate between one below and one above the throttle temperature the
  index does not change after the first throttle step. The second part fails: every
  reading at or above the throttle temperature steps the index down again. With a
  throttle temperature of 64, a hysteresis of 4 and a step of 1 the readings 65, 63, 65
  take the index from 4 to 3, keep it at 3 and take it to 2.
\<close>

theorem index_keeps_stepping_down:
  "throttle_temp resolved = 64
   \<and> map_sum id limit_idx (check_temps mako [reading 65 None] resolved) = Inr 3
   \<and> map_sum id limit_idx (check_temps mako [reading 65 None, reading 63 None] resolved) = Inr 3
   \<and> map_sum id limit_idx
       (check_temps mako [reading 65 None, reading 63 None, reading 65 None] resolved) = Inr 2"
  by (simp add: resolved_def freqs_def thermal_evals thermal_defs)

text \<open>
  C8, as amended. In \<^verbatim>\<open>msm_thermal.c\<close>, with the table resolved, the index within its
  range, a hysteresis that does not exceed the throttle temperature and a step that
  does not wrap, a run below the shutdown temperature leaves the index as follows: at
  a reading at or above the throttle temperature it is lower by the step, but not below
  0; at a reading below the throttle temperature minus the hysteresis it is higher by
  the step, but not above the top; at a reading in between it is unchanged. So the
  index rises only on a reading below the throttle temperature minus the hysteresis,
  and over the alternating readings it never rises but steps down at every reading
  above the throttle temperature until it is 0.
\<close>

theorem index_moves_by_band:
  assumes "tsens_get_temp e = Inr temp" and "temp < SHUTDOWN_TEMP" and "limit_init s"
    and "table s = Some t" and "limit_idx_low s = 0"
    and "0 \<le> sint (limit_idx s)" and "sint (limit_idx s) \<le> sint (limit_idx_high s)"
    and "sint (limit_idx_high s) < int (length t)"
    and "sint (limit_idx_high s) + uint (freq_step s) < 2 ^ 31"
    and "temp_hysteresis_degC s \<le> throttle_temp s"
  shows "\<exists>s'. check_temp p e s = Inr s'
    \<and> sint (limit_idx s') =
        (if uint (throttle_temp s) \<le> uint temp
         then max 0 (sint (limit_idx s) - uint (freq_step s))
         else if uint temp < uint (throttle_temp s) - uint (temp_hysteresis_degC s)
              then min (sint (limit_idx_high s)) (sint (limit_idx s) + uint (freq_step s))
         else sint (limit_idx s))"
proof -
  from assms(10) have "uint (throttle_temp s - temp_hysteresis_degC s)
      = uint (throttle_temp s) - uint (temp_hysteresis_degC s)"
    by (simp add: uint_minus_simple_alt)
  then have n: "next_index s temp =
        (if uint (throttle_temp s) \<le> uint temp
         then max 0 (sint (limit_idx s) - uint (freq_step s))
         else if uint temp < uint (throttle_temp s) - uint (temp_hysteresis_degC s)
              then min (sint (limit_idx_high s)) (sint (limit_idx s) + uint (freq_step s))
         else sint (limit_idx s))"
    by (simp add: next_index_def word_le_def word_less_def)
  from bands_index [OF assms(2,4-9), of p e] assms(1,3) n show ?thesis
    by (simp add: check_temp_def lazy_freq_table_def)
qed

theorem index_moves_by_band_witness:
  "tsens_get_temp (reading 65 None) = Inr 65 \<and> 65 < SHUTDOWN_TEMP \<and> limit_init resolved
   \<and> table resolved = Some freqs \<and> limit_idx_low resolved = 0
   \<and> 0 \<le> sint (limit_idx resolved)
   \<and> sint (limit_idx resolved) \<le> sint (limit_idx_high resolved)
   \<and> sint (limit_idx_high resolved) < int (length freqs)
   \<and> sint (limit_idx_high resolved) + uint (freq_step resolved) < 2 ^ 31
   \<and> temp_hysteresis_degC resolved \<le> throttle_temp resolved
   \<and> map_sum id (\<lambda>s'. sint (limit_idx s')) (check_temp mako (reading 65 None) resolved) = Inr 3"
proof -
  have h: "tsens_get_temp (reading 65 None) = Inr 65" "65 < SHUTDOWN_TEMP" "limit_init resolved"
    "table resolved = Some freqs" "limit_idx_low resolved = 0"
    "0 \<le> sint (limit_idx resolved)"
    "sint (limit_idx resolved) \<le> sint (limit_idx_high resolved)"
    "sint (limit_idx_high resolved) < int (length freqs)"
    "sint (limit_idx_high resolved) + uint (freq_step resolved) < 2 ^ 31"
    "temp_hysteresis_degC resolved \<le> throttle_temp resolved"
    by (simp_all add: thermal_evals SHUTDOWN_TEMP_def resolved_def freqs_def)
  from index_moves_by_band [OF h, of mako] obtain s' where
    "check_temp mako (reading 65 None) resolved = Inr s'"
    "sint (limit_idx s') =
        (if uint (throttle_temp resolved) \<le> uint (65 :: u32)
         then max 0 (sint (limit_idx resolved) - uint (freq_step resolved))
         else if uint (65 :: u32) < uint (throttle_temp resolved) - uint (temp_hysteresis_degC resolved)
              then min (sint (limit_idx_high resolved))
                     (sint (limit_idx resolved) + uint (freq_step resolved))
         else sint (limit_idx resolved))"
    by blast
  then have "map_sum id (\<lambda>s'. sint (limit_idx s')) (check_temp mako (reading 65 None) resolved)
      = Inr 3"
    by (simp add: resolved_def)
  with h show ?thesis by simp
qed

text \<open>
  The version in \<^verbatim>\<open>auto_hotplug.c\<close> has no hold band: a reading of 69 in its warning
  band, between the throttle temperature 70 minus the hysteresis 10 and the throttle
  temperature, takes the index from 10 back to the top.
\<close>

lemma warning_band_resets_index_A:
  "map_sum id limit_idx (check_temp_A mako (reading 72 None) (resolved_A\<lparr>freq_step := 1\<rparr>))
     = Inr 10
   \<and> map_sum id limit_idx
       (check_temp_A mako (reading 69 None) (resolved_A\<lparr>freq_step := 1, limit_idx := 10\<rparr>))
     = Inr 11"
  by (simp add: resolved_A_def freqs_A_def thermal_evals thermal_defs thermal_A_defs)

subsection \<open>The range of the index for steps that do not wrap\<close>

text \<open>
  For a step that does not wrap, the clamps of \<^verbatim>\<open>msm_thermal.c\<close> do keep the index
  in its range, over every sequence of sensor answers.
\<close>

lemma step_limit_keeps_range:
  "step_limit p temp s = Inr (Some (f, s1)) \<Longrightarrow>
     limit_idx_high s1 = limit_idx_high s \<and> limit_idx_low s1 = limit_idx_low s
     \<and> freq_step s1 = freq_step s"
  by (auto simp: step_limit_def Let_def split: if_splits sum.splits)

lemma limit_bands_keeps_range:
  assumes "limit_bands p e temp s = Inr s'"
  shows "limit_idx_high s' = limit_idx_high s \<and> limit_idx_low s' = limit_idx_low s
     \<and> freq_step s' = freq_step s"
proof (cases "SHUTDOWN_TEMP \<le> temp")
  case True
  with assms show ?thesis
    by (auto simp: limit_bands_def Let_def reschedule_keeps reschedule_keeps_B setmaxfreq_keeps
        setmaxfreq_keeps_B split: sum.splits)
next
  case False
  with assms obtain r where r: "step_limit p temp s = Inr r"
    by (auto simp: limit_bands_def Let_def split: sum.splits)
  show ?thesis
  proof (cases r)
    case None
    with assms False r show ?thesis
      by (auto simp: limit_bands_def Let_def reschedule_keeps reschedule_keeps_B)
  next
    case (Some a)
    then obtain f s1 where a: "r = Some (f, s1)" by (cases a) simp
    from step_limit_keeps_range r a have
      "limit_idx_high s1 = limit_idx_high s \<and> limit_idx_low s1 = limit_idx_low s
       \<and> freq_step s1 = freq_step s" by blast
    with assms False r a show ?thesis
      by (auto simp: limit_bands_def Let_def reschedule_keeps reschedule_keeps_B
          setmaxfreq_keeps setmaxfreq_keeps_B split: if_splits)
  qed
qed

lemma next_index_in_range:
  assumes "0 \<le> sint (limit_idx s)" and "sint (limit_idx s) \<le> sint (limit_idx_high s)"
  shows "0 \<le> next_index s temp \<and> next_index s temp \<le> sint (limit_idx_high s)"
proof -
  have "0 \<le> uint (freq_step s)" by simp
  with assms show ?thesis unfolding next_index_def by (simp add: max_def min_def; linarith)
qed

lemma check_temp_keeps_range:
  assumes "resolved_in_range s"
  shows "\<exists>s'. check_temp p e s = Inr s' \<and> resolved_in_range s'"
proof (cases "tsens_get_temp e")
  case (Inl err)
  with assms show ?thesis
    by (auto simp: check_temp_def resolved_in_range_def reschedule_keeps reschedule_keeps_B
        split: option.splits)
next
  case (Inr temp)
  from assms obtain t where t: "table s = Some t" "sint (limit_idx_high s) < int (length t)"
    by (auto simp: resolved_in_range_def split: option.splits)
  from assms have i: "limit_init s" "limit_idx_low s = 0" "0 \<le> sint (limit_idx s)"
    "sint (limit_idx s) \<le> sint (limit_idx_high s)"
    "sint (limit_idx_high s) + uint (freq_step s) < 2 ^ 31"
    by (simp_all add: resolved_in_range_def)
  from Inr i(1) have c: "check_temp p e s = limit_bands p e temp s"
    by (simp add: check_temp_def lazy_freq_table_def)
  show ?thesis
  proof (cases "SHUTDOWN_TEMP \<le> temp")
    case True
    from i t have "sint (limit_idx s) < int (length t)" by linarith
    from shutdown_band [OF True t(1) i(3) this, of p e] c assms show ?thesis
      by (auto simp: resolved_in_range_def setmaxfreq_keeps setmaxfreq_keeps_B
          split: option.splits)
  next
    case False
    then have lt: "temp < SHUTDOWN_TEMP" by simp
    from bands_index [OF lt t(1) i(2,3,4) t(2) i(5), of p e] obtain s' where
      s': "limit_bands p e temp s = Inr s'" "sint (limit_idx s') = next_index s temp"
      by blast
    from limit_bands_keeps [OF s'(1)] limit_bands_keeps_range [OF s'(1)]
      next_index_in_range [OF i(3,4), of temp] s'(2) i t c s'(1)
    show ?thesis by (auto simp: resolved_in_range_def split: option.splits)
  qed
qed

lemma check_temps_keep_range:
  "resolved_in_range s \<Longrightarrow> \<exists>s'. check_temps p es s = Inr s' \<and> resolved_in_range s'"
proof (induction es arbitrary: s)
  case Nil
  then show ?case by simp
next
  case (Cons e es)
  from check_temp_keeps_range [OF Cons.prems, of p e] obtain s1 where
    "check_temp p e s = Inr s1" "resolved_in_range s1" by blast
  with Cons.IH [of s1] show ?case by simp
qed

end
